theory Spec2Isabelle
  imports Complex_Main "HOL-Library.AList"
begin

section \<open>vmctl: the process registry and lifecycle of VM helper processes\<close>

text \<open>
  A shallow embedding of \<^verbatim>\<open>vmctl.py\<close>. Strings are lists of ASCII characters. Every
  function that touches the file system or a process takes the world and returns it
  with its result; an exception that leaves a function is the \<open>Inl\<close> of its result, next
  to the world as it was when the exception was raised.
\<close>

subsection \<open>Exceptions\<close>

datatype error =
    ValueError
  | TypeError
  | OverflowError
  | AttributeError
  | KeyError
  | ProcessLookupError
  | PermissionError
  | FileNotFoundError
  | OSError
  | UnicodeDecodeError
  | RecursionError
  | Unmodelled

subsection \<open>Text: \<^verbatim>\<open>strip\<close>, \<^verbatim>\<open>upper\<close>, \<^verbatim>\<open>endswith\<close>, \<^verbatim>\<open>int\<close>, \<^verbatim>\<open>str\<close>\<close>

text \<open>
  \<^verbatim>\<open>str.strip()\<close> removes the characters Python counts as whitespace: on ASCII text
  0x09 to 0x0D, 0x1C to 0x1F and the space. \<^verbatim>\<open>int()\<close> skips, before and after the
  number, the whitespace of C only: 0x09 to 0x0D and the space.
\<close>

definition is_space :: "char \<Rightarrow> bool" where
  "is_space c \<longleftrightarrow> c \<in> set [CHR 0x09, CHR 0x0A, CHR 0x0B, CHR 0x0C, CHR 0x0D,
                          CHR 0x1C, CHR 0x1D, CHR 0x1E, CHR 0x1F, CHR '' '']"

definition is_c_space :: "char \<Rightarrow> bool" where
  "is_c_space c \<longleftrightarrow> c \<in> set [CHR 0x09, CHR 0x0A, CHR 0x0B, CHR 0x0C, CHR 0x0D, CHR '' '']"

text \<open>A text without the characters of a class at its two ends.\<close>

definition trim :: "(char \<Rightarrow> bool) \<Rightarrow> string \<Rightarrow> string" where
  "trim P s = rev (dropWhile P (rev (dropWhile P s)))"

definition strip :: "string \<Rightarrow> string" where
  "strip s = trim is_space s"

text \<open>\<^verbatim>\<open>str.lstrip()\<close>: what \<^verbatim>\<open>strip\<close> leaves of a text that ends in a character it keeps.\<close>

definition lstrip :: "string \<Rightarrow> string" where
  "lstrip s = dropWhile is_space s"

definition upper_char :: "char \<Rightarrow> char" where
  "upper_char c =
     (case map_of (zip ''abcdefghijklmnopqrstuvwxyz'' ''ABCDEFGHIJKLMNOPQRSTUVWXYZ'') c of
        Some u \<Rightarrow> u | None \<Rightarrow> c)"

definition upper :: "string \<Rightarrow> string" where
  "upper s = map upper_char s"

definition endswith :: "string \<Rightarrow> string \<Rightarrow> bool" where
  "endswith s t \<longleftrightarrow> length t \<le> length s \<and> drop (length s - length t) s = t"

definition digit_val :: "char \<Rightarrow> int option" where
  "digit_val c = map_of (zip ''0123456789'' [0, 1, 2, 3, 4, 5, 6, 7, 8, 9]) c"

fun after_digit :: "int \<Rightarrow> string \<Rightarrow> int option" where
  "after_digit acc [] = Some acc"
| "after_digit acc (c # cs) =
     (case digit_val c of
        Some v \<Rightarrow> after_digit (10 * acc + v) cs
      | None \<Rightarrow>
          (if c = CHR ''_'' then
             (case cs of
                [] \<Rightarrow> None
              | d # ds \<Rightarrow>
                  (case digit_val d of
                     Some v \<Rightarrow> after_digit (10 * acc + v) ds
                   | None \<Rightarrow> None))
           else None))"

definition unsigned_int :: "string \<Rightarrow> int option" where
  "unsigned_int s =
     (case s of
        [] \<Rightarrow> None
      | c # cs \<Rightarrow> (case digit_val c of Some v \<Rightarrow> after_digit v cs | None \<Rightarrow> None))"

definition signed_int :: "string \<Rightarrow> int option" where
  "signed_int t =
     (case t of
        [] \<Rightarrow> None
      | c # cs \<Rightarrow>
          if c = CHR ''-'' then map_option uminus (unsigned_int cs)
          else if c = CHR ''+'' then unsigned_int cs
          else unsigned_int t)"

text \<open>\<^verbatim>\<open>int(s)\<close> in base ten: optional whitespace of C, an optional sign, digits with
  single underscores between them, optional whitespace of C; anything else raises
  \<^verbatim>\<open>ValueError\<close>. Integers are unbounded, as Python's are; the interpreter's settable cap
  on the number of digits of a conversion between \<^verbatim>\<open>int\<close> and \<^verbatim>\<open>str\<close> (4300 by default) is
  not modelled.\<close>

definition py_int :: "string \<Rightarrow> error + int" where
  "py_int s =
     (case signed_int (trim is_c_space s) of None \<Rightarrow> Inl ValueError | Some n \<Rightarrow> Inr n)"

definition digit_char :: "nat \<Rightarrow> char" where
  "digit_char d = ''0123456789'' ! d"

fun digits :: "nat \<Rightarrow> string" where
  "digits n = (if n < 10 then [digit_char n] else digits (n div 10) @ [digit_char (n mod 10)])"

declare digits.simps [simp del]

definition str :: "int \<Rightarrow> string" where
  "str i = (if i < 0 then CHR ''-'' # digits (nat (- i)) else digits (nat i))"

definition parse_memory :: "string \<Rightarrow> error + int" where
  "parse_memory mem_str0 =
     (let mem_str = upper (strip mem_str0) in
      if endswith mem_str ''G'' then
        map_sum id (\<lambda>n. n * 1024 * 1024 * 1024) (py_int (butlast mem_str))
      else if endswith mem_str ''M'' then
        map_sum id (\<lambda>n. n * 1024 * 1024) (py_int (butlast mem_str))
      else if endswith mem_str ''K'' then
        map_sum id (\<lambda>n. n * 1024) (py_int (butlast mem_str))
      else py_int mem_str)"

definition format_memory :: "int \<Rightarrow> string" where
  "format_memory bytes_val =
     (if bytes_val \<ge> 1024 * 1024 * 1024 then str (bytes_val div (1024 * 1024 * 1024)) @ ''G''
      else if bytes_val \<ge> 1024 * 1024 then str (bytes_val div (1024 * 1024)) @ ''M''
      else str (bytes_val div 1024) @ ''K'')"


subsection \<open>JSON values and their Python reading\<close>

text \<open>
  \<^verbatim>\<open>json.load\<close> yields \<^verbatim>\<open>None\<close>, a bool, an int, a float, a str, a list or a dict.
  A dict is kept as an association list with distinct keys. Of a float only its
  being zero is ever observed, so a rational stands for it.
\<close>

datatype json =
    JNull
  | JBool bool
  | JInt int
  | JFloat rat
  | JStr string
  | JList "json list"
  | JObject "(string \<times> json) list"

text \<open>Truth value of a Python object, as \<^verbatim>\<open>if pid and ...\<close> tests it.\<close>

fun truthy :: "json \<Rightarrow> bool" where
  "truthy JNull = False"
| "truthy (JBool b) = b"
| "truthy (JInt n) = (n \<noteq> 0)"
| "truthy (JFloat r) = (r \<noteq> 0)"
| "truthy (JStr s) = (s \<noteq> [])"
| "truthy (JList xs) = (xs \<noteq> [])"
| "truthy (JObject kvs) = (kvs \<noteq> [])"

text \<open>\<^verbatim>\<open>info.get(key)\<close>: only a dict has \<^verbatim>\<open>get\<close>; a missing key gives \<^verbatim>\<open>None\<close>.\<close>

fun py_get :: "json \<Rightarrow> string \<Rightarrow> error + json" where
  "py_get (JObject kvs) key = Inr (case map_of kvs key of Some v \<Rightarrow> v | None \<Rightarrow> JNull)"
| "py_get _ key = Inl AttributeError"

text \<open>\<^verbatim>\<open>vm[key]\<close> with a string key: a dict without the key raises \<^verbatim>\<open>KeyError\<close>,
  anything that is not a dict raises \<^verbatim>\<open>TypeError\<close>.\<close>

fun py_getitem :: "json \<Rightarrow> string \<Rightarrow> error + json" where
  "py_getitem (JObject kvs) key = (case map_of kvs key of Some v \<Rightarrow> Inr v | None \<Rightarrow> Inl KeyError)"
| "py_getitem _ key = Inl TypeError"

text \<open>\<^verbatim>\<open>value == name\<close> against a str, and \<^verbatim>\<open>value == pid\<close> against an int
  (in Python \<^verbatim>\<open>True == 1\<close> and \<^verbatim>\<open>1.0 == 1\<close>).\<close>

definition eq_str :: "string \<Rightarrow> json \<Rightarrow> bool" where
  "eq_str s v \<longleftrightarrow> v = JStr s"

fun eq_int :: "int \<Rightarrow> json \<Rightarrow> bool" where
  "eq_int n (JInt m) = (m = n)"
| "eq_int n (JBool b) = ((if b then 1 else 0) = n)"
| "eq_int n (JFloat r) = (r = of_int n)"
| "eq_int n _ = False"

text \<open>The text an f-string puts for a value. Floats, lists and dicts are not rendered
  here: the model stops with \<open>Unmodelled\<close> on them.\<close>

fun py_format :: "json \<Rightarrow> error + string" where
  "py_format JNull = Inr ''None''"
| "py_format (JBool b) = Inr (if b then ''True'' else ''False'')"
| "py_format (JInt n) = Inr (str n)"
| "py_format (JStr s) = Inr s"
| "py_format _ = Inl Unmodelled"

text \<open>The process id \<^verbatim>\<open>os.kill\<close> reads from its first argument: an int (a bool is one) that
  fits the C type \<^verbatim>\<open>pid_t\<close>.\<close>

fun as_pid :: "json \<Rightarrow> error + int" where
  "as_pid (JInt n) = (if - (2 ^ 31) \<le> n \<and> n < 2 ^ 31 then Inr n else Inl OverflowError)"
| "as_pid (JBool b) = Inr (if b then 1 else 0)"
| "as_pid _ = Inl TypeError"

subsection \<open>The world the tool runs in\<close>

text \<open>
  A file of the run directory \<^verbatim>\<open>~/.vmctl/run\<close> is modelled by what \<^verbatim>\<open>json.load\<close> makes of
  it: a value; \<^verbatim>\<open>JSONDecodeError\<close> (\<open>Unparsable\<close>: an empty, truncated or non-JSON text such
  as a log); \<^verbatim>\<open>UnicodeDecodeError\<close> (\<open>Undecodable\<close>: bytes that are no text in the encoding
  of \<^verbatim>\<open>open\<close>, which fail when the file is read, before any parsing); or \<^verbatim>\<open>RecursionError\<close>
  (\<open>TooDeep\<close>: brackets nested deeper than the interpreter's recursion limit). The last two
  are not subclasses of \<^verbatim>\<open>JSONDecodeError\<close>. Every file of the directory is a regular file
  that the tool may open.
\<close>

datatype content = Parsed json | Unparsable | Undecodable | TooDeep

datatype signal = SIG0 | SIGTERM | SIGKILL

text \<open>What the operating system answers to a signal for a process id: the process exists
  and the caller may signal it, there is no such process, or it exists and belongs to
  someone else.\<close>

datatype proc = Alive | Gone | Denied

text \<open>System calls that leave the tool, in the order made.\<close>

datatype event =
    Kill int signal proc
  | Sleep rat
  | Popen string "(string \<times> string) list" bool int
  | Codesign string
  | Wait int
  | Terminate int

text \<open>What the tool prints, one constructor per message of the source.\<close>

datatype message =
    ErrAlreadyRunning string json
  | ErrDiskMissing string
  | HintDisk
  | WarnSeedMissing string
  | Starting string
  | ShowDisk string
  | ShowCpu int
  | ShowMemory string
  | ErrBinaryMissing string
  | ForegroundNotice
  | Interrupted
  | StartedBackground string
  | ShowPid int
  | ShowLog string
  | HintStop string
  | HintLogs string
  | NoRunningVMs
  | ErrNeedName
  | ErrNotFound string
  | HintList
  | Stopping json json
  | Escalating
  | Stopped json
  | AlreadyGone json
  | ErrNoPermission json

record config =
  default_cpu :: int
  default_memory :: string
  default_disk :: string
  vmstart_binary :: string
  seed_iso :: string
  efi_var_store :: string

definition DEFAULT_CONFIG :: config where
  "DEFAULT_CONFIG =
     \<lparr>default_cpu = 2, default_memory = ''2G'', default_disk = ''ubuntu.raw'',
      vmstart_binary = ''./vmstart'', seed_iso = ''seed.iso'',
      efi_var_store = ''efi_vars.store''\<rparr>"

text \<open>
  The state threaded through every function.
  \<^item> \<open>run_dir\<close>: the files of the run directory, name and content, in the order a
    directory listing gives them. An absent directory and an empty one are the same
    registry, so \<open>ensure_dirs\<close> leaves the state as it is.
  \<^item> \<open>config_file\<close>: the dictionary \<^verbatim>\<open>load_config\<close> reads from \<^verbatim>\<open>config.json\<close>
    (already laid over the defaults, with values of the defaults' types), if the file exists.
  \<^item> \<open>path_exists\<close>: \<^verbatim>\<open>os.path.exists\<close> on the paths the user names; \<open>abspath\<close>:
    \<^verbatim>\<open>os.path.abspath\<close>.
  \<^item> \<open>procs\<close>: the process table as the \<open>n\<close>-th call of \<^verbatim>\<open>os.kill\<close> finds it;
    \<open>kills\<close> counts the calls made. Processes live on their own, so two calls may see
    different tables, whatever happens in between.
  \<^item> \<open>popen_result\<close>: what the next \<^verbatim>\<open>subprocess.Popen\<close> gives, a pid or an \<^verbatim>\<open>OSError\<close>;
    \<open>codesign_installed\<close>: whether \<^verbatim>\<open>codesign\<close> can be run; \<open>interrupted\<close>: whether
    Ctrl-C arrives while a foreground start waits for its child.
  \<^item> \<open>now_unix\<close>, \<open>now_iso\<close>: the clock as \<^verbatim>\<open>int(time.time())\<close> and as
    \<^verbatim>\<open>datetime.now().isoformat()\<close>.
  \<^item> \<open>trace\<close>, \<open>stdout\<close>: the system calls made and the messages printed so far.
\<close>

record world =
  run_dir :: "(string \<times> content) list"
  config_file :: "config option"
  path_exists :: "string \<Rightarrow> bool"
  abspath :: "string \<Rightarrow> string"
  procs :: "nat \<Rightarrow> int \<Rightarrow> proc"
  kills :: nat
  popen_result :: "error + int"
  codesign_installed :: bool
  interrupted :: bool
  now_unix :: int
  now_iso :: string
  trace :: "event list"
  stdout :: "message list"

type_synonym 'a result = "(error + 'a) \<times> world"

definition print :: "message \<Rightarrow> world \<Rightarrow> world" where
  "print m w = w\<lparr>stdout := stdout w @ [m]\<rparr>"

definition emit :: "event \<Rightarrow> world \<Rightarrow> world" where
  "emit e w = w\<lparr>trace := trace w @ [e]\<rparr>"

definition ensure_dirs :: "world \<Rightarrow> world" where
  "ensure_dirs w = w"

definition load_config :: "world \<Rightarrow> config" where
  "load_config w = (case config_file w of Some c \<Rightarrow> c | None \<Rightarrow> DEFAULT_CONFIG)"

definition file_exists :: "string \<Rightarrow> world \<Rightarrow> bool" where
  "file_exists f w \<longleftrightarrow> map_of (run_dir w) f \<noteq> None"

definition write_file :: "string \<Rightarrow> content \<Rightarrow> world \<Rightarrow> world" where
  "write_file f c w = w\<lparr>run_dir := AList.update f c (run_dir w)\<rparr>"

definition unlink :: "string \<Rightarrow> world \<Rightarrow> world" where
  "unlink f w = w\<lparr>run_dir := AList.delete f (run_dir w)\<rparr>"

definition save_vm_info :: "string \<Rightarrow> int \<Rightarrow> string \<Rightarrow> json \<Rightarrow> world \<Rightarrow> world" where
  "save_vm_info name pid disk cfg w =
     (let w1 = ensure_dirs w;
          info = JObject [(''name'', JStr name), (''pid'', JInt pid), (''disk'', JStr disk),
                          (''started_at'', JStr (now_iso w1)), (''config'', cfg)]
      in write_file (name @ ''.json'') (Parsed info) w1)"

definition remove_vm_info :: "string \<Rightarrow> world \<Rightarrow> world" where
  "remove_vm_info name w =
     (let info_file = name @ ''.json''
      in if file_exists info_file w then unlink info_file w else w)"

subsection \<open>Signals and the liveness probe\<close>

text \<open>\<^verbatim>\<open>os.kill(pid, sig)\<close>: a bad argument raises before any system call; otherwise the
  call is made, recorded with the system's answer, and raises \<^verbatim>\<open>ProcessLookupError\<close> or
  \<^verbatim>\<open>PermissionError\<close> unless the signal was delivered.\<close>

definition os_kill :: "json \<Rightarrow> signal \<Rightarrow> world \<Rightarrow> unit result" where
  "os_kill pid sig w =
     (case as_pid pid of
        Inl e \<Rightarrow> (Inl e, w)
      | Inr n \<Rightarrow>
          (let answer = procs w (kills w) n;
               w1 = emit (Kill n sig answer) (w\<lparr>kills := Suc (kills w)\<rparr>)
           in case answer of
                Alive \<Rightarrow> (Inr (), w1)
              | Gone \<Rightarrow> (Inl ProcessLookupError, w1)
              | Denied \<Rightarrow> (Inl PermissionError, w1)))"

text \<open>The exception classes below \<^verbatim>\<open>OSError\<close>.\<close>

fun is_OSError :: "error \<Rightarrow> bool" where
  "is_OSError ProcessLookupError = True"
| "is_OSError PermissionError = True"
| "is_OSError FileNotFoundError = True"
| "is_OSError OSError = True"
| "is_OSError _ = False"

definition is_process_running :: "json \<Rightarrow> world \<Rightarrow> bool result" where
  "is_process_running pid w =
     (case os_kill pid SIG0 w of
        (Inr _, w1) \<Rightarrow> (Inr True, w1)
      | (Inl e, w1) \<Rightarrow> if is_OSError e then (Inr False, w1) else (Inl e, w1))"

subsection \<open>Enumerating the registry\<close>

definition glob_json :: "world \<Rightarrow> string list" where
  "glob_json w = filter (\<lambda>f. endswith f ''.json'') (map fst (run_dir w))"

text \<open>The body of the loop of \<^verbatim>\<open>get_running_vms\<close> for one file: the record to append, if
  any. \<^verbatim>\<open>JSONDecodeError\<close> (and \<^verbatim>\<open>KeyError\<close>, which nothing here raises) is caught and
  the file skipped; every other exception leaves the function, those of \<^verbatim>\<open>json.load\<close>
  that the \<^verbatim>\<open>except\<close> clause does not name among them.\<close>

definition visit :: "string \<Rightarrow> world \<Rightarrow> json option result" where
  "visit info_file w =
     (case map_of (run_dir w) info_file of
        None \<Rightarrow> (Inl FileNotFoundError, w)
      | Some Unparsable \<Rightarrow> (Inr None, w)
      | Some Undecodable \<Rightarrow> (Inl UnicodeDecodeError, w)
      | Some TooDeep \<Rightarrow> (Inl RecursionError, w)
      | Some (Parsed info) \<Rightarrow>
          (case py_get info ''pid'' of
             Inl e \<Rightarrow> (Inl e, w)
           | Inr pid \<Rightarrow>
               if truthy pid then
                 (case is_process_running pid w of
                    (Inl e, w1) \<Rightarrow> (Inl e, w1)
                  | (Inr running, w1) \<Rightarrow>
                      if running then (Inr (Some info), w1)
                      else (Inr None, unlink info_file w1))
               else (Inr None, unlink info_file w)))"

fun scan :: "string list \<Rightarrow> json list \<Rightarrow> world \<Rightarrow> json list result" where
  "scan [] vms w = (Inr vms, w)"
| "scan (info_file # rest) vms w =
     (case visit info_file w of
        (Inl e, w1) \<Rightarrow> (Inl e, w1)
      | (Inr None, w1) \<Rightarrow> scan rest vms w1
      | (Inr (Some info), w1) \<Rightarrow> scan rest (vms @ [info]) w1)"

definition get_running_vms :: "world \<Rightarrow> json list result" where
  "get_running_vms w = (let w1 = ensure_dirs w in scan (glob_json w1) [] w1)"

subsection \<open>Stopping\<close>

text \<open>The \<^verbatim>\<open>for _ in range(10)\<close> loop of \<^verbatim>\<open>stop_vm\<close> with its \<^verbatim>\<open>else\<close>: the result says
  whether the loop ran to its end (no \<^verbatim>\<open>break\<close>), which is when the \<^verbatim>\<open>else\<close> branch runs.\<close>

fun wait_loop :: "nat \<Rightarrow> json \<Rightarrow> world \<Rightarrow> bool result" where
  "wait_loop 0 pid w = (Inr True, w)"
| "wait_loop (Suc n) pid w =
     (let w1 = emit (Sleep (1 / 2)) w
      in case is_process_running pid w1 of
           (Inl e, w2) \<Rightarrow> (Inl e, w2)
         | (Inr running, w2) \<Rightarrow> if \<not> running then (Inr False, w2) else wait_loop n pid w2)"

text \<open>The signalling part of the \<^verbatim>\<open>try\<close> block.\<close>

definition send_signals :: "json \<Rightarrow> bool \<Rightarrow> world \<Rightarrow> unit result" where
  "send_signals pid force w =
     (if force then os_kill pid SIGKILL w
      else
        (case os_kill pid SIGTERM w of
           (Inl e, w1) \<Rightarrow> (Inl e, w1)
         | (Inr _, w1) \<Rightarrow>
             (case wait_loop 10 pid w1 of
                (Inl e, w2) \<Rightarrow> (Inl e, w2)
              | (Inr exhausted, w2) \<Rightarrow>
                  if exhausted then os_kill pid SIGKILL (print Escalating w2)
                  else (Inr (), w2))))"

text \<open>\<^verbatim>\<open>remove_vm_info(name)\<close> for a name that is any JSON value: the file name is
  formatted from it.\<close>

definition remove_named :: "json \<Rightarrow> world \<Rightarrow> unit result" where
  "remove_named name w =
     (case py_format name of
        Inl e \<Rightarrow> (Inl e, w)
      | Inr s \<Rightarrow> (Inr (), remove_vm_info s w))"

definition stop_vm :: "json \<Rightarrow> json \<Rightarrow> bool \<Rightarrow> world \<Rightarrow> int result" where
  "stop_vm name pid force w =
     (let w0 = print (Stopping name pid) w;
          handler = (\<lambda>e w1.
            if e = ProcessLookupError then
              (case remove_named name w1 of
                 (Inl e', w2) \<Rightarrow> (Inl e', w2)
               | (Inr _, w2) \<Rightarrow> (Inr 0, print (AlreadyGone name) w2))
            else if e = PermissionError then (Inr 1, print (ErrNoPermission pid) w1)
            else (Inl e, w1))
      in case send_signals pid force w0 of
           (Inl e, w1) \<Rightarrow> handler e w1
         | (Inr _, w1) \<Rightarrow>
             (case remove_named name w1 of
                (Inl e, w2) \<Rightarrow> handler e w2
              | (Inr _, w2) \<Rightarrow> (Inr 0, print (Stopped name) w2)))"

text \<open>\<^verbatim>\<open>for vm in running_vms: if vm[key] == value: target_vm = vm; break\<close>.\<close>

fun find_vm :: "string \<Rightarrow> (json \<Rightarrow> bool) \<Rightarrow> json list \<Rightarrow> error + json option" where
  "find_vm key is_it [] = Inr None"
| "find_vm key is_it (vm # vms) =
     (case py_getitem vm key of
        Inl e \<Rightarrow> Inl e
      | Inr v \<Rightarrow> if is_it v then Inr (Some vm) else find_vm key is_it vms)"

text \<open>The command-line arguments of \<^verbatim>\<open>start\<close> and \<^verbatim>\<open>stop\<close> (\<^verbatim>\<open>args.name\<close> is
  \<open>arg_name\<close>, and so on); an option not given is \<open>None\<close>.\<close>

record args =
  arg_name :: "string option"
  arg_disk :: "string option"
  arg_seed :: "string option"
  arg_cpu :: "int option"
  arg_memory :: "string option"
  arg_binary :: "string option"
  arg_foreground :: bool
  arg_all :: bool
  arg_force :: bool

text \<open>\<^verbatim>\<open>x or default\<close> for an optional string and an optional int.\<close>

fun or_str :: "string option \<Rightarrow> string \<Rightarrow> string" where
  "or_str None d = d"
| "or_str (Some s) d = (if s \<noteq> [] then s else d)"

fun or_int :: "int option \<Rightarrow> int \<Rightarrow> int" where
  "or_int None d = d"
| "or_int (Some n) d = (if n \<noteq> 0 then n else d)"

text \<open>\<^verbatim>\<open>for vm in running_vms: stop_vm(vm["name"], vm["pid"], force=args.force)\<close>.\<close>

fun stop_all :: "json list \<Rightarrow> bool \<Rightarrow> world \<Rightarrow> unit result" where
  "stop_all [] force w = (Inr (), w)"
| "stop_all (vm # vms) force w =
     (case py_getitem vm ''name'' of
        Inl e \<Rightarrow> (Inl e, w)
      | Inr name \<Rightarrow>
          (case py_getitem vm ''pid'' of
             Inl e \<Rightarrow> (Inl e, w)
           | Inr pid \<Rightarrow>
               (case stop_vm name pid force w of
                  (Inl e, w1) \<Rightarrow> (Inl e, w1)
                | (Inr _, w1) \<Rightarrow> stop_all vms force w1)))"

text \<open>The second search of \<^verbatim>\<open>cmd_stop\<close>: the argument read as a pid.\<close>

definition find_by_pid :: "string \<Rightarrow> json list \<Rightarrow> error + json option" where
  "find_by_pid name running_vms =
     (case py_int name of
        Inl e \<Rightarrow> if e = ValueError then Inr None else Inl e
      | Inr pid \<Rightarrow> find_vm ''pid'' (eq_int pid) running_vms)"

definition cmd_stop :: "args \<Rightarrow> world \<Rightarrow> int result" where
  "cmd_stop args w =
     (case get_running_vms w of
        (Inl e, w1) \<Rightarrow> (Inl e, w1)
      | (Inr running_vms, w1) \<Rightarrow>
          if arg_all args then
            (if running_vms = [] then (Inr 0, print NoRunningVMs w1)
             else
               (case stop_all running_vms (arg_force args) w1 of
                  (Inl e, w2) \<Rightarrow> (Inl e, w2)
                | (Inr _, w2) \<Rightarrow> (Inr 0, w2)))
          else if or_str (arg_name args) [] = [] then (Inr 1, print ErrNeedName w1)
          else
            (let name = or_str (arg_name args) [] in
             case find_vm ''name'' (eq_str name) running_vms of
               Inl e \<Rightarrow> (Inl e, w1)
             | Inr by_name \<Rightarrow>
                 (case (case by_name of Some vm \<Rightarrow> Inr (Some vm)
                        | None \<Rightarrow> find_by_pid name running_vms) of
                    Inl e \<Rightarrow> (Inl e, w1)
                  | Inr None \<Rightarrow> (Inr 1, print HintList (print (ErrNotFound name) w1))
                  | Inr (Some target_vm) \<Rightarrow>
                      (case py_getitem target_vm ''name'' of
                         Inl e \<Rightarrow> (Inl e, w1)
                       | Inr n \<Rightarrow>
                           (case py_getitem target_vm ''pid'' of
                              Inl e \<Rightarrow> (Inl e, w1)
                            | Inr p \<Rightarrow> stop_vm n p (arg_force args) w1)))))"

subsection \<open>Starting\<close>

text \<open>The launch configuration written for the helper, and the \<^verbatim>\<open>VMCTL_*\<close> entries added to
  its environment.\<close>

definition vm_config_of :: "world \<Rightarrow> int \<Rightarrow> string \<Rightarrow> int \<Rightarrow> string \<Rightarrow> string \<Rightarrow> json" where
  "vm_config_of w cpu memory memory_bytes disk seed =
     JObject [(''cpu'', JInt cpu), (''memory'', JStr memory), (''memory_bytes'', JInt memory_bytes),
              (''disk'', JStr (abspath w disk)),
              (''seed'', if path_exists w seed then JStr (abspath w seed) else JNull)]"

definition launch_env :: "world \<Rightarrow> string \<Rightarrow> int \<Rightarrow> int \<Rightarrow> string \<Rightarrow> string \<Rightarrow> (string \<times> string) list" where
  "launch_env w name cpu memory_bytes disk seed =
     [(''VMCTL_DISK'', abspath w disk), (''VMCTL_CPU'', str cpu),
      (''VMCTL_MEMORY'', str memory_bytes), (''VMCTL_NAME'', name)]
     @ (if path_exists w seed then [(''VMCTL_SEED'', abspath w seed)] else [])"

text \<open>The two ways to run the helper. In the foreground the record is removed on every way
  out of the \<^verbatim>\<open>try\<close> (\<^verbatim>\<open>finally\<close>); in the background the log file is opened for writing
  first and the record saved once \<^verbatim>\<open>Popen\<close> has returned.\<close>

definition run_foreground ::
  "string \<Rightarrow> string \<Rightarrow> string \<Rightarrow> json \<Rightarrow> (string \<times> string) list \<Rightarrow> world \<Rightarrow> int result" where
  "run_foreground name disk vmstart_bin vm_config env w =
     (let w1 = print ForegroundNotice w in
      case popen_result w1 of
        Inl e \<Rightarrow> (Inl e, remove_vm_info name w1)
      | Inr pid \<Rightarrow>
          (let w2 = emit (Popen vmstart_bin env False pid) w1;
               w3 = save_vm_info name pid disk vm_config w2;
               w4 = emit (Wait pid) w3;
               w5 = (if interrupted w4 then emit (Terminate pid) (print Interrupted w4) else w4)
           in (Inr 0, remove_vm_info name w5)))"

definition run_background ::
  "string \<Rightarrow> string \<Rightarrow> string \<Rightarrow> json \<Rightarrow> (string \<times> string) list \<Rightarrow> world \<Rightarrow> int result" where
  "run_background name disk vmstart_bin vm_config env w =
     (let log_file = name @ ''.log'';
          w1 = write_file log_file Unparsable w
      in case popen_result w1 of
           Inl e \<Rightarrow> (Inl e, w1)
         | Inr pid \<Rightarrow>
             (let w2 = emit (Popen vmstart_bin env True pid) w1;
                  w3 = save_vm_info name pid disk vm_config w2;
                  w4 = print (HintLogs name) (print (HintStop name) (print (ShowLog log_file)
                         (print (ShowPid pid) (print (StartedBackground name) w3))))
              in (Inr 0, w4)))"

text \<open>\<^verbatim>\<open>cmd_start\<close> from the helper-binary check on: the optional code signing, then the
  launch.\<close>

definition launch ::
  "args \<Rightarrow> config \<Rightarrow> string \<Rightarrow> string \<Rightarrow> json \<Rightarrow> (string \<times> string) list \<Rightarrow> world \<Rightarrow> int result" where
  "launch args cfg name disk vm_config env w =
     (let vmstart_bin = or_str (arg_binary args) (vmstart_binary cfg) in
      if \<not> path_exists w vmstart_bin then (Inr 1, print (ErrBinaryMissing vmstart_bin) w)
      else
        (let entitlements = ''vmstart.entitlements'' in
         if path_exists w entitlements \<and> \<not> codesign_installed w then (Inl FileNotFoundError, w)
         else
           (let w1 = (if path_exists w entitlements then emit (Codesign vmstart_bin) w else w) in
            if arg_foreground args then run_foreground name disk vmstart_bin vm_config env w1
            else run_background name disk vmstart_bin vm_config env w1)))"

text \<open>\<^verbatim>\<open>cmd_start\<close> after the name check: the disk check, the seed warning, the memory
  size, the launch configuration file.\<close>

definition prepare :: "args \<Rightarrow> config \<Rightarrow> string \<Rightarrow> world \<Rightarrow> int result" where
  "prepare args cfg name w =
     (let disk = or_str (arg_disk args) (default_disk cfg) in
      if \<not> path_exists w disk then (Inr 1, print HintDisk (print (ErrDiskMissing disk) w))
      else
        (let seed = or_str (arg_seed args) (seed_iso cfg);
             w1 = (if \<not> path_exists w seed then print (WarnSeedMissing seed) w else w);
             cpu = or_int (arg_cpu args) (default_cpu cfg);
             memory = or_str (arg_memory args) (default_memory cfg)
         in case parse_memory memory of
              Inl e \<Rightarrow> (Inl e, w1)
            | Inr memory_bytes \<Rightarrow>
                (let vm_config = vm_config_of w1 cpu memory memory_bytes disk seed;
                     w2 = print (ShowMemory memory) (print (ShowCpu cpu) (print (ShowDisk disk)
                            (print (Starting name) w1)));
                     vm_config_file = name @ ''_config.json'';
                     w3 = write_file vm_config_file (Parsed vm_config) (ensure_dirs w2);
                     env = launch_env w3 name cpu memory_bytes disk seed
                 in launch args cfg name disk vm_config env w3)))"

definition cmd_start :: "args \<Rightarrow> world \<Rightarrow> int result" where
  "cmd_start args w =
     (let cfg = load_config w;
          name = or_str (arg_name args) (''vm-'' @ str (now_unix w))
      in case get_running_vms w of
           (Inl e, w1) \<Rightarrow> (Inl e, w1)
         | (Inr running_vms, w1) \<Rightarrow>
             (case find_vm ''name'' (eq_str name) running_vms of
                Inl e \<Rightarrow> (Inl e, w1)
              | Inr (Some vm) \<Rightarrow>
                  (case py_getitem vm ''pid'' of
                     Inl e \<Rightarrow> (Inl e, w1)
                   | Inr pid \<Rightarrow> (Inr 1, print (ErrAlreadyRunning name pid) w1))
              | Inr None \<Rightarrow> prepare args cfg name w1))"

subsection \<open>Size buckets\<close>

text \<open>Following the specification's words ("within the same size bucket"): the bucket of
  a byte count is the unit it is large enough for.\<close>

datatype bucket = GiB | MiB | KiB

definition bucket_of :: "int \<Rightarrow> bucket" where
  "bucket_of b = (if b \<ge> 2 ^ 30 then GiB else if b \<ge> 2 ^ 20 then MiB else KiB)"

subsection \<open>Notions used to state the properties\<close>

text \<open>The world after one liveness probe of process \<open>n\<close>: one more call of \<^verbatim>\<open>os.kill\<close>,
  recorded with the answer it got.\<close>

definition probed :: "int \<Rightarrow> world \<Rightarrow> world" where
  "probed n w = emit (Kill n SIG0 (procs w (kills w) n)) (w\<lparr>kills := Suc (kills w)\<rparr>)"

text \<open>The records of the files of \<open>fs\<close> that are in the run directory of \<open>w\<close>, in the
  order of \<open>fs\<close>.\<close>

definition survivors :: "world \<Rightarrow> string list \<Rightarrow> json list" where
  "survivors w fs =
     List.map_filter
       (\<lambda>f. case map_of (run_dir w) f of Some (Parsed info) \<Rightarrow> Some info | _ \<Rightarrow> None) fs"

text \<open>The system calls made between two worlds of one run.\<close>

definition new_events :: "world \<Rightarrow> world \<Rightarrow> event list" where
  "new_events w w' = drop (length (trace w)) (trace w')"

text \<open>Between \<open>w\<close> and \<open>w'\<close> a probe of the record's pid was answered "alive".\<close>

definition confirmed_alive :: "json \<Rightarrow> world \<Rightarrow> world \<Rightarrow> bool" where
  "confirmed_alive info w w' =
     (case py_get info ''pid'' of
        Inl e \<Rightarrow> False
      | Inr pid \<Rightarrow>
          truthy pid \<and>
          (case as_pid pid of
             Inl e \<Rightarrow> False
           | Inr n \<Rightarrow> Kill n SIG0 Alive \<in> set (new_events w w')))"

text \<open>A record the enumeration can read without an exception: a dict whose \<open>pid\<close> is
  absent, falsy, or a process id.\<close>

definition readable :: "json \<Rightarrow> bool" where
  "readable info =
     (case py_get info ''pid'' of
        Inl e \<Rightarrow> False
      | Inr pid \<Rightarrow> \<not> truthy pid \<or> (case as_pid pid of Inl e \<Rightarrow> False | Inr n \<Rightarrow> True))"

text \<open>A file the loop of the enumeration passes without an exception: one that holds a
  readable record, or one on which \<^verbatim>\<open>json.load\<close> raises \<^verbatim>\<open>JSONDecodeError\<close>.\<close>

definition passable :: "content \<Rightarrow> bool" where
  "passable c =
     (case c of
        Parsed info \<Rightarrow> readable info
      | Unparsable \<Rightarrow> True
      | Undecodable \<Rightarrow> False
      | TooDeep \<Rightarrow> False)"

text \<open>Two worlds that differ at most in the run directory, the count of \<^verbatim>\<open>os.kill\<close> calls,
  the trace and the output.\<close>

definition same_env :: "world \<Rightarrow> world \<Rightarrow> bool" where
  "same_env w w' \<longleftrightarrow>
     config_file w' = config_file w \<and> path_exists w' = path_exists w \<and>
     abspath w' = abspath w \<and> procs w' = procs w \<and> popen_result w' = popen_result w \<and>
     codesign_installed w' = codesign_installed w \<and> interrupted w' = interrupted w \<and>
     now_unix w' = now_unix w \<and> now_iso w' = now_iso w"

text \<open>A record whose pid is a process that the table \<open>t\<close> has alive, and the records of
  the registry of \<open>w\<close> that are so, in directory order.\<close>

definition live_in :: "(int \<Rightarrow> proc) \<Rightarrow> json \<Rightarrow> bool" where
  "live_in t info =
     (case py_get info ''pid'' of
        Inl e \<Rightarrow> False
      | Inr pid \<Rightarrow>
          truthy pid \<and> (case as_pid pid of Inl e \<Rightarrow> False | Inr n \<Rightarrow> t n = Alive))"

definition live_record :: "(int \<Rightarrow> proc) \<Rightarrow> world \<Rightarrow> string \<Rightarrow> json option" where
  "live_record t w f =
     (case map_of (run_dir w) f of
        Some (Parsed info) \<Rightarrow> if live_in t info then Some info else None
      | _ \<Rightarrow> None)"

definition live_records :: "(int \<Rightarrow> proc) \<Rightarrow> world \<Rightarrow> json list" where
  "live_records t w = List.map_filter (live_record t w) (glob_json w)"

subsection \<open>Example worlds\<close>

text \<open>A machine with an empty registry, no files and no processes; the examples below
  change it field by field.\<close>

definition quiet_world :: world where
  "quiet_world =
     \<lparr>run_dir = [], config_file = None, path_exists = (\<lambda>p. False),
      abspath = (\<lambda>p. ''/home/u/'' @ p), procs = (\<lambda>k n. Gone), kills = 0,
      popen_result = Inr 4242, codesign_installed = False, interrupted = False,
      now_unix = 1700000000, now_iso = ''2023-11-14T22:13:20'', trace = [], stdout = []\<rparr>"

text \<open>A record as \<^verbatim>\<open>save_vm_info\<close> writes it.\<close>

definition vm_record :: "string \<Rightarrow> int \<Rightarrow> json" where
  "vm_record name pid =
     JObject [(''name'', JStr name), (''pid'', JInt pid), (''disk'', JStr ''a.raw''),
              (''started_at'', JStr ''2023-11-14T22:13:20''),
              (''config'', JObject [(''cpu'', JInt 2), (''memory'', JStr ''2G'')])]"

text \<open>A registry with a live record, a dead one, a truncated file, three records whose
  pid is missing, null and zero, and a log; process 100 runs, no other does.\<close>

definition mixed_registry :: world where
  "mixed_registry =
     quiet_world
       \<lparr>run_dir :=
          [(''alpha.json'', Parsed (vm_record ''alpha'' 100)),
           (''beta.json'', Parsed (vm_record ''beta'' 200)),
           (''torn.json'', Unparsable),
           (''nopid.json'', Parsed (JObject [(''name'', JStr ''nopid'')])),
           (''null.json'', Parsed (JObject [(''name'', JStr ''null''), (''pid'', JNull)])),
           (''zero.json'', Parsed (JObject [(''name'', JStr ''zero''), (''pid'', JInt 0)])),
           (''alpha.log'', Unparsable)],
        procs := (\<lambda>k n. if n = 100 then Alive else Gone)\<rparr>"

text \<open>A registry with the record of the running process 100 and a file whose bytes are
  not valid UTF-8.\<close>

definition garbled_registry :: world where
  "garbled_registry =
     quiet_world
       \<lparr>run_dir :=
          [(''alpha.json'', Parsed (vm_record ''alpha'' 100)),
           (''noise.json'', Undecodable)],
        procs := (\<lambda>k n. if n = 100 then Alive else Gone)\<rparr>"

subsection \<open>Notions for the stop sequence\<close>

text \<open>After the termination request, which is call number \<open>kills w\<close> of \<^verbatim>\<open>os.kill\<close>, the
  \<open>i\<close>-th liveness poll (counted from 0) is call number \<open>kills w + 1 + i\<close>.\<close>

definition poll_answer :: "world \<Rightarrow> int \<Rightarrow> nat \<Rightarrow> proc" where
  "poll_answer w n i = procs w (kills w + 1 + i) n"

text \<open>The polls made: up to the first answer that is not "alive", ten at most.\<close>

definition polls_made :: "world \<Rightarrow> int \<Rightarrow> nat" where
  "polls_made w n =
     min 10 (Suc (length (takeWhile (\<lambda>i. poll_answer w n i = Alive) [0..<10])))"

text \<open>Process 100 takes the termination request and is gone at the third poll.\<close>

definition cooperating_world :: world where
  "cooperating_world =
     quiet_world
       \<lparr>run_dir := [(''alpha.json'', Parsed (vm_record ''alpha'' 100))],
        procs := (\<lambda>k n. if n = 100 \<and> k < 3 then Alive else Gone)\<rparr>"

text \<open>Process 100 never goes away.\<close>

definition stubborn_world :: world where
  "stubborn_world =
     quiet_world
       \<lparr>run_dir := [(''alpha.json'', Parsed (vm_record ''alpha'' 100))],
        procs := (\<lambda>k n. if n = 100 then Alive else Gone)\<rparr>"

text \<open>The arguments of \<^verbatim>\<open>vmctl stop NAME\<close> and \<^verbatim>\<open>vmctl start --name NAME --disk DISK\<close>.\<close>

definition stop_args :: "string \<Rightarrow> args" where
  "stop_args name =
     \<lparr>arg_name = Some name, arg_disk = None, arg_seed = None, arg_cpu = None,
      arg_memory = None, arg_binary = None, arg_foreground = False, arg_all = False,
      arg_force = False\<rparr>"

definition start_args :: "string \<Rightarrow> string \<Rightarrow> args" where
  "start_args name disk =
     \<lparr>arg_name = Some name, arg_disk = Some disk, arg_seed = None, arg_cpu = None,
      arg_memory = None, arg_binary = None, arg_foreground = False, arg_all = False,
      arg_force = False\<rparr>"

text \<open>The registry holds a record for \<open>alpha\<close>, whose process 100 has died.\<close>

definition dead_world :: world where
  "dead_world = quiet_world\<lparr>run_dir := [(''alpha.json'', Parsed (vm_record ''alpha'' 100))]\<rparr>"

text \<open>Process 100 answers the probe of the enumeration and is gone at the next call.\<close>

definition race_world :: world where
  "race_world =
     quiet_world
       \<lparr>run_dir := [(''alpha.json'', Parsed (vm_record ''alpha'' 100))],
        procs := (\<lambda>k n. if n = 100 \<and> k < 1 then Alive else Gone)\<rparr>"

text \<open>The record of \<open>alpha\<close> names process 1, which runs and belongs to another user.\<close>

definition foreign_world :: world where
  "foreign_world =
     quiet_world
       \<lparr>run_dir := [(''alpha.json'', Parsed (vm_record ''alpha'' 1))],
        procs := (\<lambda>k n. if n = 1 then Denied else Gone)\<rparr>"

text \<open>A disk image \<open>a.raw\<close> and the helper \<open>./vmstart\<close> exist.\<close>

definition installed :: "string \<Rightarrow> bool" where
  "installed p \<longleftrightarrow> p \<in> set [''a.raw'', ''./vmstart'']"

text \<open>Only the disk image exists.\<close>

definition disk_only :: "string \<Rightarrow> bool" where
  "disk_only p \<longleftrightarrow> p = ''a.raw''"

section \<open>Properties\<close>

subsection \<open>Reading and printing integers\<close>

lemma digit_cases: "d < 10 \<Longrightarrow> d \<in> set [0, 1, 2, 3, 4, 5, 6, 7, 8, 9::nat]"
  by (simp; arith)

lemma digit_val_digit_char: "d < 10 \<Longrightarrow> digit_val (digit_char d) = Some (int d)"
  using digit_cases [of d] by (auto simp: digit_val_def digit_char_def)

lemma digit_val_Some_props:
  "digit_val c = Some v \<Longrightarrow> \<not> is_space c \<and> c \<noteq> CHR ''-'' \<and> c \<noteq> CHR ''+'' \<and> c \<noteq> CHR ''_''
     \<and> c \<notin> set ''GMK''"
  by (auto simp: digit_val_def is_space_def split: if_splits)

lemma digit_val_upper_char: "digit_val (upper_char c) = digit_val c"
  by (simp add: digit_val_def upper_char_def)

lemma upper_char_underscore: "upper_char c = CHR ''_'' \<longleftrightarrow> c = CHR ''_''"
  by (simp add: upper_char_def)

lemma upper_char_minus: "upper_char c = CHR ''-'' \<longleftrightarrow> c = CHR ''-''"
  by (simp add: upper_char_def)

lemma upper_char_plus: "upper_char c = CHR ''+'' \<longleftrightarrow> c = CHR ''+''"
  by (simp add: upper_char_def)

lemma is_c_space_is_space: "is_c_space c \<Longrightarrow> is_space c"
  by (auto simp: is_c_space_def is_space_def)

lemma is_space_upper_char: "is_space (upper_char c) \<longleftrightarrow> is_space c"
  by (simp add: upper_char_def is_space_def)

lemma is_c_space_upper_char: "is_c_space (upper_char c) \<longleftrightarrow> is_c_space c"
  by (simp add: upper_char_def is_c_space_def)

lemma after_digit_upper: "after_digit acc (map upper_char cs) = after_digit acc cs"
  by (induction acc cs rule: after_digit.induct)
     (auto simp: digit_val_upper_char upper_char_underscore split: option.splits list.splits)

lemma unsigned_int_upper: "unsigned_int (upper s) = unsigned_int s"
  by (cases s)
     (simp_all add: unsigned_int_def upper_def digit_val_upper_char after_digit_upper
        split: option.splits)

lemma signed_int_upper: "signed_int (upper s) = signed_int s"
proof (cases s)
  case Nil
  then show ?thesis by (simp add: upper_def)
next
  case (Cons c cs)
  have "unsigned_int (upper_char c # upper cs) = unsigned_int (c # cs)"
    using unsigned_int_upper [of "c # cs"] by (simp add: upper_def)
  then show ?thesis
    using Cons unsigned_int_upper [of cs]
    by (simp add: signed_int_def upper_def upper_char_minus upper_char_plus)
qed

lemma dropWhile_upper:
  assumes "\<And>c. P (upper_char c) = P c"
  shows "dropWhile P (upper s) = upper (dropWhile P s)"
  by (induction s) (simp_all add: upper_def assms)

lemma rev_upper: "rev (upper s) = upper (rev s)"
  by (simp add: upper_def rev_map)

lemma trim_upper:
  assumes "\<And>c. P (upper_char c) = P c"
  shows "trim P (upper s) = upper (trim P s)"
  by (simp add: trim_def dropWhile_upper [of P, OF assms] rev_upper)

lemma dropWhile_hd_id: "xs \<noteq> [] \<Longrightarrow> \<not> P (hd xs) \<Longrightarrow> dropWhile P xs = xs"
  by (cases xs) simp_all

lemma last_dropWhile: "dropWhile P xs \<noteq> [] \<Longrightarrow> last (dropWhile P xs) = last xs"
  by (induction xs) (auto split: if_splits)

lemma trim_id: "s \<noteq> [] \<Longrightarrow> \<not> P (hd s) \<Longrightarrow> \<not> P (last s) \<Longrightarrow> trim P s = s"
  by (simp add: trim_def dropWhile_hd_id hd_rev)

lemma trim_ends:
  assumes ne: "trim P s \<noteq> []"
  shows "\<not> P (hd (trim P s))" and "\<not> P (last (trim P s))" and "dropWhile P s \<noteq> []"
    and "hd (trim P s) = hd (dropWhile P s)"
proof -
  let ?a = "dropWhile P s"
  let ?b = "dropWhile P (rev ?a)"
  from ne have b: "?b \<noteq> []"
    by (simp add: trim_def)
  have a: "?a \<noteq> []"
  proof
    assume e: "?a = []"
    have "?b = dropWhile P (rev [])" by (simp only: e)
    with b show False by simp
  qed
  from b have "\<not> P (hd ?b)" by (rule hd_dropWhile)
  then show "\<not> P (last (trim P s))"
    using b by (simp add: trim_def last_rev)
  from b have "last ?b = last (rev ?a)" by (rule last_dropWhile)
  also have "\<dots> = hd ?a" using a by (simp add: last_rev)
  finally show h: "hd (trim P s) = hd ?a"
    using b by (simp add: trim_def hd_rev)
  from a have "\<not> P (hd ?a)" by (rule hd_dropWhile)
  then show "\<not> P (hd (trim P s))" by (simp add: h)
  show "?a \<noteq> []" by (rule a)
qed

lemma trim_trim: "trim P (trim P s) = trim P s"
proof (cases "trim P s = []")
  case True
  have "trim P [] = []" by (simp add: trim_def)
  with True show ?thesis by simp
next
  case False
  then show ?thesis using trim_ends(1,2) [OF False] by (simp add: trim_id)
qed

lemma trim_dropWhile: "trim P (dropWhile P s) = trim P s"
  by (simp add: trim_def dropWhile_idem)

lemma trim_snoc: "\<not> P c \<Longrightarrow> trim P (s @ [c]) = dropWhile P s @ [c]"
  by (simp add: trim_def dropWhile_append)

lemma trim_last:
  assumes "s \<noteq> []" and "\<not> P (last s)"
  shows "trim P s \<noteq> [] \<and> last (trim P s) = last s"
proof -
  let ?a = "dropWhile P s"
  from assms have "last s \<in> set s" by simp
  with assms(2) have a: "?a \<noteq> []"
    by (auto simp: dropWhile_eq_Nil_conv)
  then have la: "last ?a = last s" by (rule last_dropWhile)
  from a la assms(2) have "rev ?a \<noteq> []" "\<not> P (hd (rev ?a))"
    by (simp_all add: hd_rev)
  then have "dropWhile P (rev ?a) = rev ?a" by (rule dropWhile_hd_id)
  then have "trim P s = ?a" by (simp add: trim_def)
  with a la show ?thesis by simp
qed

text \<open>\<^verbatim>\<open>strip\<close> and \<^verbatim>\<open>upper\<close>.\<close>

lemma strip_upper: "strip (upper s) = upper (strip s)"
  by (simp add: strip_def trim_upper is_space_upper_char)

lemma strip_ends:
  "strip s \<noteq> [] \<Longrightarrow> \<not> is_space (hd (strip s)) \<and> \<not> is_space (last (strip s))"
  using trim_ends(1,2) [of is_space s] by (simp add: strip_def)

lemma strip_strip: "strip (strip s) = strip s"
  by (simp add: strip_def trim_trim)

lemma strip_upper_strip: "strip (upper (strip s)) = upper (strip s)"
  by (simp add: strip_upper strip_strip)

lemma strip_snoc: "\<not> is_space c \<Longrightarrow> strip (s @ [c]) = lstrip s @ [c]"
  by (simp add: strip_def lstrip_def trim_snoc)

lemma endswith_snoc: "endswith (s @ [c]) [d] \<longleftrightarrow> c = d"
  by (simp add: endswith_def)

lemma endswith_single: "endswith s [d] \<longleftrightarrow> s \<noteq> [] \<and> last s = d"
  by (cases s rule: rev_cases) (simp_all add: endswith_def)

text \<open>\<^verbatim>\<open>int\<close> does not see the case of letters, and what it accepts it accepts after
  \<^verbatim>\<open>strip\<close> or \<^verbatim>\<open>lstrip\<close> too (the converse fails: \<^verbatim>\<open>strip\<close> removes 0x1C to 0x1F, on
  which \<^verbatim>\<open>int\<close> raises).\<close>

lemma py_int_upper: "py_int (upper s) = py_int s"
  by (simp add: py_int_def trim_upper is_c_space_upper_char signed_int_upper)

lemma after_digit_last:
  "after_digit acc cs = Some n \<Longrightarrow> cs = [] \<or> digit_val (last cs) \<noteq> None"
  by (induction acc cs rule: after_digit.induct)
     (auto split: option.splits if_splits list.splits)

lemma unsigned_int_last: "unsigned_int s = Some n \<Longrightarrow> s \<noteq> [] \<and> digit_val (last s) \<noteq> None"
  by (cases s) (auto simp: unsigned_int_def split: option.splits dest: after_digit_last)

lemma signed_int_last: "signed_int s = Some n \<Longrightarrow> s \<noteq> [] \<and> digit_val (last s) \<noteq> None"
  by (cases s) (auto simp: signed_int_def split: if_splits dest!: unsigned_int_last)

lemma py_int_last:
  "py_int s = Inr n \<Longrightarrow> trim is_c_space s \<noteq> [] \<and> digit_val (last (trim is_c_space s)) \<noteq> None"
  by (auto simp: py_int_def split: option.splits dest!: signed_int_last)

lemma py_int_Inl: "py_int s = Inl e \<Longrightarrow> e = ValueError"
  by (auto simp: py_int_def split: option.splits)

lemma unsigned_int_hd: "unsigned_int s = Some n \<Longrightarrow> s \<noteq> [] \<and> digit_val (hd s) \<noteq> None"
  by (cases s) (auto simp: unsigned_int_def split: option.splits)

lemma signed_int_hd: "signed_int t = Some n \<Longrightarrow> t \<noteq> [] \<and> \<not> is_space (hd t)"
proof (cases t)
  case Nil
  then show "signed_int t = Some n \<Longrightarrow> t \<noteq> [] \<and> \<not> is_space (hd t)"
    by (simp add: signed_int_def)
next
  case (Cons c cs)
  assume s: "signed_int t = Some n"
  show "t \<noteq> [] \<and> \<not> is_space (hd t)"
  proof (cases "c = CHR ''-'' \<or> c = CHR ''+''")
    case True
    with Cons show ?thesis by (auto simp: is_space_def)
  next
    case False
    with s Cons have "unsigned_int (c # cs) = Some n"
      by (simp add: signed_int_def)
    from unsigned_int_hd [OF this] obtain v where "digit_val c = Some v" by auto
    with Cons show ?thesis using digit_val_Some_props by auto
  qed
qed

lemma dropWhile_space_eq:
  "dropWhile is_c_space s \<noteq> [] \<Longrightarrow> \<not> is_space (hd (dropWhile is_c_space s)) \<Longrightarrow>
     dropWhile is_space s = dropWhile is_c_space s"
  by (induction s) (auto dest: is_c_space_is_space)

lemma trim_space_eq:
  assumes ne: "trim is_c_space s \<noteq> []"
    and h: "\<not> is_space (hd (trim is_c_space s))" and l: "\<not> is_space (last (trim is_c_space s))"
  shows "trim is_space s = trim is_c_space s" and "lstrip s = dropWhile is_c_space s"
proof -
  let ?a = "dropWhile is_c_space s"
  let ?b = "dropWhile is_c_space (rev ?a)"
  have a: "?a \<noteq> []" by (rule trim_ends(3) [OF ne])
  from h have "\<not> is_space (hd ?a)" by (simp add: trim_ends(4) [OF ne])
  with a have 1: "dropWhile is_space s = ?a" by (rule dropWhile_space_eq)
  then show "lstrip s = dropWhile is_c_space s" by (simp add: lstrip_def)
  from ne have b: "?b \<noteq> []" by (simp add: trim_def)
  with l have "\<not> is_space (hd ?b)" by (simp add: trim_def last_rev)
  with b have 2: "dropWhile is_space (rev ?a) = ?b" by (rule dropWhile_space_eq)
  show "trim is_space s = trim is_c_space s"
    by (simp add: trim_def 1 2)
qed

lemma py_int_ends:
  assumes "py_int s = Inr n"
  shows "trim is_c_space s \<noteq> []" "\<not> is_space (hd (trim is_c_space s))"
    "\<not> is_space (last (trim is_c_space s))"
proof -
  from assms have s: "signed_int (trim is_c_space s) = Some n"
    by (auto simp: py_int_def split: option.splits)
  from signed_int_hd [OF s] show "trim is_c_space s \<noteq> []" "\<not> is_space (hd (trim is_c_space s))"
    by simp_all
  from signed_int_last [OF s] obtain v where "digit_val (last (trim is_c_space s)) = Some v"
    by auto
  then show "\<not> is_space (last (trim is_c_space s))"
    using digit_val_Some_props by blast
qed

lemma py_int_lstrip: "py_int s = Inr n \<Longrightarrow> py_int (lstrip s) = Inr n"
  using trim_space_eq(2) [OF py_int_ends]
  by (simp add: py_int_def trim_dropWhile)

lemma py_int_strip: "py_int s = Inr n \<Longrightarrow> py_int (strip s) = Inr n"
  using trim_space_eq(1) [OF py_int_ends]
  by (simp add: py_int_def strip_def trim_trim)

text \<open>\<^verbatim>\<open>parse_memory\<close> on a text that ends in one of the three suffixes.\<close>

lemma parse_memory_G:
  "parse_memory (s @ ''G'') =
     (case py_int (lstrip s) of Inl e \<Rightarrow> Inl e | Inr n \<Rightarrow> Inr (n * 2 ^ 30))"
proof -
  have sp: "\<not> is_space (CHR ''G'')"
    by (simp add: is_space_def)
  have up: "upper ''G'' = ''G''"
    by (simp add: upper_def upper_char_def)
  have "upper (strip (s @ ''G'')) = upper (lstrip s @ ''G'')"
    using strip_snoc [OF sp, of s] by simp
  also have "\<dots> = upper (lstrip s) @ upper ''G''"
    unfolding upper_def by (rule map_append)
  finally have t: "upper (strip (s @ ''G'')) = upper (lstrip s) @ ''G''"
    by (simp only: up)
  have "parse_memory (s @ ''G'') = map_sum id (\<lambda>n. n * 1024 * 1024 * 1024) (py_int (lstrip s))"
    unfolding parse_memory_def t Let_def
    by (simp add: endswith_snoc py_int_upper)
  then show ?thesis
    by (cases "py_int (lstrip s)") simp_all
qed

lemma parse_memory_M:
  "parse_memory (s @ ''M'') =
     (case py_int (lstrip s) of Inl e \<Rightarrow> Inl e | Inr n \<Rightarrow> Inr (n * 2 ^ 20))"
proof -
  have sp: "\<not> is_space (CHR ''M'')"
    by (simp add: is_space_def)
  have up: "upper ''M'' = ''M''"
    by (simp add: upper_def upper_char_def)
  have "upper (strip (s @ ''M'')) = upper (lstrip s @ ''M'')"
    using strip_snoc [OF sp, of s] by simp
  also have "\<dots> = upper (lstrip s) @ upper ''M''"
    unfolding upper_def by (rule map_append)
  finally have t: "upper (strip (s @ ''M'')) = upper (lstrip s) @ ''M''"
    by (simp only: up)
  have "parse_memory (s @ ''M'') = map_sum id (\<lambda>n. n * 1024 * 1024) (py_int (lstrip s))"
    unfolding parse_memory_def t Let_def
    by (simp add: endswith_snoc py_int_upper)
  then show ?thesis
    by (cases "py_int (lstrip s)") simp_all
qed

lemma parse_memory_K:
  "parse_memory (s @ ''K'') =
     (case py_int (lstrip s) of Inl e \<Rightarrow> Inl e | Inr n \<Rightarrow> Inr (n * 2 ^ 10))"
proof -
  have sp: "\<not> is_space (CHR ''K'')"
    by (simp add: is_space_def)
  have up: "upper ''K'' = ''K''"
    by (simp add: upper_def upper_char_def)
  have "upper (strip (s @ ''K'')) = upper (lstrip s @ ''K'')"
    using strip_snoc [OF sp, of s] by simp
  also have "\<dots> = upper (lstrip s) @ upper ''K''"
    unfolding upper_def by (rule map_append)
  finally have t: "upper (strip (s @ ''K'')) = upper (lstrip s) @ ''K''"
    by (simp only: up)
  have "parse_memory (s @ ''K'') = map_sum id (\<lambda>n. n * 1024) (py_int (lstrip s))"
    unfolding parse_memory_def t Let_def
    by (simp add: endswith_snoc py_int_upper)
  then show ?thesis
    by (cases "py_int (lstrip s)") simp_all
qed

lemma digits_ne: "digits n \<noteq> []"
  by (subst digits.simps) simp

lemma digits_digit: "c \<in> set (digits n) \<Longrightarrow> digit_val c \<noteq> None"
proof (induction n rule: digits.induct)
  case (1 n)
  show ?case
  proof (cases "n < 10")
    case True
    with "1.prems" show ?thesis
      by (simp add: digits.simps [of n] digit_val_digit_char)
  next
    case False
    with "1.prems" "1.IH" show ?thesis
      by (auto simp: digits.simps [of n] digit_val_digit_char)
  qed
qed

lemma after_digit_snoc:
  "\<forall>c \<in> set ds. digit_val c \<noteq> None \<Longrightarrow> digit_val c = Some v \<Longrightarrow>
     after_digit acc (ds @ [c]) = map_option (\<lambda>a. 10 * a + v) (after_digit acc ds)"
  by (induction ds arbitrary: acc) auto

lemma unsigned_int_digits: "unsigned_int (digits n) = Some (int n)"
proof (induction n rule: digits.induct)
  case (1 n)
  show ?case
  proof (cases "n < 10")
    case True
    then show ?thesis
      by (simp add: digits.simps [of n] unsigned_int_def digit_val_digit_char)
  next
    case False
    obtain x xs where xs: "digits (n div 10) = x # xs"
      using digits_ne [of "n div 10"] by (cases "digits (n div 10)") auto
    from xs digits_digit [of _ "n div 10"] have dg: "\<forall>c \<in> set xs. digit_val c \<noteq> None"
      and "digit_val x \<noteq> None" by auto
    then obtain v where v: "digit_val x = Some v" by auto
    from False "1.IH" have "unsigned_int (x # xs) = Some (int (n div 10))"
      by (simp add: xs)
    with v have a: "after_digit v xs = Some (int (n div 10))"
      by (simp add: unsigned_int_def)
    have d: "digit_val (digit_char (n mod 10)) = Some (int (n mod 10))"
      by (simp add: digit_val_digit_char)
    have "unsigned_int (digits n) = after_digit v (xs @ [digit_char (n mod 10)])"
      using False v by (simp add: digits.simps [of n] xs unsigned_int_def)
    also have "\<dots> = Some (10 * int (n div 10) + int (n mod 10))"
      by (simp add: after_digit_snoc [OF dg d] a)
    also have "10 * int (n div 10) + int (n mod 10) = int n"
      by (simp add: zmod_int zdiv_int)
    finally show ?thesis .
  qed
qed

lemma hd_digits: "digit_val (hd (digits n)) \<noteq> None"
  using digits_digit [of "hd (digits n)" n] digits_ne [of n] by simp

lemma last_digits: "digit_val (last (digits n)) \<noteq> None"
  using digits_digit [of "last (digits n)" n] digits_ne [of n] by simp

lemma signed_int_str: "signed_int (str i) = Some i"
proof (cases "i < 0")
  case True
  then show ?thesis
    by (simp add: str_def signed_int_def unsigned_int_digits)
next
  case False
  obtain x xs where xs: "digits (nat i) = x # xs"
    using digits_ne [of "nat i"] by (cases "digits (nat i)") auto
  from hd_digits [of "nat i"] obtain v where "digit_val x = Some v"
    by (auto simp: xs)
  then have "x \<noteq> CHR ''-''" "x \<noteq> CHR ''+''"
    using digit_val_Some_props by blast+
  then have "signed_int (x # xs) = unsigned_int (x # xs)"
    by (simp add: signed_int_def)
  with False show ?thesis
    using unsigned_int_digits [of "nat i"] by (simp add: str_def xs)
qed

lemma str_ne: "str i \<noteq> []"
  by (simp add: str_def digits_ne)

lemma last_str: "digit_val (last (str i)) \<noteq> None"
  using last_digits [of "nat i"] last_digits [of "nat (- i)"]
  by (simp add: str_def digits_ne)

lemma hd_str: "\<not> is_space (hd (str i))"
proof (cases "i < 0")
  case True
  then show ?thesis by (simp add: str_def is_space_def)
next
  case False
  then show ?thesis
    using hd_digits [of "nat i"] digit_val_Some_props by (auto simp: str_def)
qed

lemma last_str_space: "\<not> is_space (last (str i))"
  using last_str [of i] digit_val_Some_props by auto

lemma strip_str: "strip (str i) = str i"
  unfolding strip_def by (rule trim_id [where P = is_space, OF str_ne hd_str last_str_space])

lemma lstrip_str: "lstrip (str i) = str i"
  unfolding lstrip_def by (rule dropWhile_hd_id [where P = is_space, OF str_ne hd_str])

lemma trim_c_str: "trim is_c_space (str i) = str i"
proof (rule trim_id [OF str_ne])
  show "\<not> is_c_space (hd (str i))" using hd_str is_c_space_is_space by blast
  show "\<not> is_c_space (last (str i))" using last_str_space is_c_space_is_space by blast
qed

lemma py_int_str: "py_int (str i) = Inr i"
  by (simp add: py_int_def trim_c_str signed_int_str)

text \<open>\<^verbatim>\<open>parse_memory\<close> on a text without suffix, and on a text with another one.\<close>

lemma parse_memory_plain:
  assumes "\<not> endswith (upper (strip s)) ''G''" "\<not> endswith (upper (strip s)) ''M''"
    "\<not> endswith (upper (strip s)) ''K''"
  shows "parse_memory s = py_int (strip s)"
  using assms by (simp add: parse_memory_def py_int_upper)

lemma last_upper: "s \<noteq> [] \<Longrightarrow> last (upper s) = upper_char (last s)"
  by (simp add: upper_def last_map)

lemma parse_memory_bad_suffix:
  assumes ne: "upper (strip s) \<noteq> []"
    and nd: "digit_val (last (upper (strip s))) = None"
    and ns: "last (upper (strip s)) \<notin> set ''GMK''"
  shows "parse_memory s = Inl ValueError"
proof -
  let ?t = "upper (strip s)"
  from ne have sn: "strip s \<noteq> []" by (auto simp: upper_def)
  from ne ns have "parse_memory s = py_int ?t"
    by (auto simp: parse_memory_def endswith_single)
  moreover have "py_int ?t = Inl ValueError"
  proof (cases "py_int ?t")
    case (Inl e)
    with py_int_Inl [OF Inl] show ?thesis by simp
  next
    case (Inr n)
    from strip_ends [OF sn] have "\<not> is_space (last ?t)"
      by (simp add: last_upper [OF sn] is_space_upper_char)
    then have "\<not> is_c_space (last ?t)" using is_c_space_is_space by blast
    from trim_last [where P = is_c_space, OF ne this] have "last (trim is_c_space ?t) = last ?t" by simp
    with py_int_last [OF Inr] nd show ?thesis by simp
  qed
  ultimately show ?thesis by simp
qed

subsection \<open>Memory sizes\<close>

lemma last_upper_str: "last (upper (strip (str n))) \<notin> set ''GMK''"
proof -
  have "last (upper (strip (str n))) = upper_char (last (str n))"
    by (simp add: strip_str upper_def last_map str_ne)
  moreover obtain v where "digit_val (upper_char (last (str n))) = Some v"
    using last_str [of n] by (auto simp: digit_val_upper_char)
  ultimately show ?thesis
    using digit_val_Some_props by metis
qed

lemma parse_memory_no_suffix:
  assumes "upper (strip q) = [] \<or> last (upper (strip q)) \<notin> set ''GMK''"
  shows "parse_memory q = py_int (strip q)"
  using assms by (intro parse_memory_plain) (auto simp: endswith_single)

lemma parse_memory_int:
  assumes "py_int p = Inr m"
  shows "parse_memory p = Inr m"
proof -
  from py_int_ends [OF assms] have e: "strip p = trim is_c_space p"
    unfolding strip_def by (rule trim_space_eq(1))
  from py_int_last [OF assms] obtain v where
    ne: "strip p \<noteq> []" and d: "digit_val (last (strip p)) = Some v"
    by (auto simp: e)
  from d have "digit_val (upper_char (last (strip p))) = Some v"
    by (simp add: digit_val_upper_char)
  then have "upper_char (last (strip p)) \<notin> set ''GMK''"
    using digit_val_Some_props by metis
  then have "last (upper (strip p)) \<notin> set ''GMK''"
    by (simp add: last_upper [OF ne])
  then have "parse_memory p = py_int (strip p)"
    by (intro parse_memory_no_suffix) simp
  with py_int_strip [OF assms] show ?thesis by simp
qed

text \<open>
  Claim C7. \<^verbatim>\<open>parse_memory\<close> on a text that ends in \<open>G\<close>, \<open>M\<close> or \<open>K\<close> reads what
  stands before the suffix, without the whitespace \<^verbatim>\<open>strip\<close> took from its front, with
  \<^verbatim>\<open>int\<close> and multiplies it by \<open>2^30\<close>, \<open>2^20\<close> or \<open>2^10\<close> (failing where \<^verbatim>\<open>int\<close> fails);
  so an integer text \<open>s\<close> that \<^verbatim>\<open>int\<close> reads as \<open>n\<close> gives \<open>n * 2^30\<close>, \<open>n * 2^20\<close> and
  \<open>n * 2^10\<close> with the three suffixes. The decimal text of an integer is read as that
  integer, and so is every text that \<^verbatim>\<open>int\<close> accepts; a text that does not end in one
  of the three suffixes is read by \<^verbatim>\<open>int\<close> after \<^verbatim>\<open>strip\<close>; and a text that ends in any
  other character that is not a digit raises \<^verbatim>\<open>ValueError\<close> and returns no value.
\<close>

theorem parse_memory_suffix_rules:
  "parse_memory (s @ ''G'') =
     (case py_int (lstrip s) of Inl e \<Rightarrow> Inl e | Inr n \<Rightarrow> Inr (n * 2 ^ 30)) \<and>
   parse_memory (s @ ''M'') =
     (case py_int (lstrip s) of Inl e \<Rightarrow> Inl e | Inr n \<Rightarrow> Inr (n * 2 ^ 20)) \<and>
   parse_memory (s @ ''K'') =
     (case py_int (lstrip s) of Inl e \<Rightarrow> Inl e | Inr n \<Rightarrow> Inr (n * 2 ^ 10)) \<and>
   (py_int s = Inr n \<longrightarrow>
      parse_memory (s @ ''G'') = Inr (n * 2 ^ 30) \<and>
      parse_memory (s @ ''M'') = Inr (n * 2 ^ 20) \<and>
      parse_memory (s @ ''K'') = Inr (n * 2 ^ 10)) \<and>
   py_int (str i) = Inr i \<and> parse_memory (str i) = Inr i \<and>
   (py_int p = Inr m \<longrightarrow> parse_memory p = Inr m) \<and>
   (upper (strip p) = [] \<or> last (upper (strip p)) \<notin> set ''GMK'' \<longrightarrow>
      parse_memory p = py_int (strip p)) \<and>
   (upper (strip u) \<noteq> [] \<and> last (upper (strip u)) \<notin> set ''GMK'' \<and>
    digit_val (last (upper (strip u))) = None \<longrightarrow>
      parse_memory u = Inl ValueError)"
proof -
  have suf: "py_int s = Inr n \<longrightarrow>
      parse_memory (s @ ''G'') = Inr (n * 2 ^ 30) \<and>
      parse_memory (s @ ''M'') = Inr (n * 2 ^ 20) \<and>
      parse_memory (s @ ''K'') = Inr (n * 2 ^ 10)"
  proof
    assume "py_int s = Inr n"
    then have "py_int (lstrip s) = Inr n" by (rule py_int_lstrip)
    then show "parse_memory (s @ ''G'') = Inr (n * 2 ^ 30) \<and>
      parse_memory (s @ ''M'') = Inr (n * 2 ^ 20) \<and>
      parse_memory (s @ ''K'') = Inr (n * 2 ^ 10)"
      by (simp add: parse_memory_G parse_memory_M parse_memory_K)
  qed
  have lit: "parse_memory (str i) = Inr i"
    using py_int_str [of i] by (rule parse_memory_int)
  have int: "py_int p = Inr m \<longrightarrow> parse_memory p = Inr m"
    using parse_memory_int [of p m] by blast
  have plain: "upper (strip p) = [] \<or> last (upper (strip p)) \<notin> set ''GMK'' \<longrightarrow>
      parse_memory p = py_int (strip p)"
    using parse_memory_no_suffix [of p] by blast
  have bad: "upper (strip u) \<noteq> [] \<and> last (upper (strip u)) \<notin> set ''GMK'' \<and>
    digit_val (last (upper (strip u))) = None \<longrightarrow> parse_memory u = Inl ValueError"
    using parse_memory_bad_suffix [of u] by blast
  from parse_memory_G [of s] parse_memory_M [of s] parse_memory_K [of s] suf py_int_str [of i]
    lit int plain bad
  show ?thesis by (intro conjI)
qed

text \<open>The rules of C7 at \<open>2G\<close>, \<open>512M\<close>, \<open>4K\<close>, \<open>1024\<close>, \<open>2T\<close> and \<open>1.5G\<close>, and at the
  separator 0x1C, which \<^verbatim>\<open>strip\<close> removes and on which \<^verbatim>\<open>int\<close> raises: after the
  number it is an error, before the number it is gone when \<^verbatim>\<open>int\<close> runs.\<close>

theorem parse_memory_suffix_rules_witness:
  "parse_memory ''2G'' = Inr 2147483648 \<and> parse_memory ''512M'' = Inr 536870912 \<and>
   parse_memory ''4K'' = Inr 4096 \<and> parse_memory ''1024'' = Inr 1024 \<and>
   parse_memory ''2T'' = Inl ValueError \<and> parse_memory ''1.5G'' = Inl ValueError \<and>
   parse_memory [CHR ''5'', CHR 0x1C, CHR ''G''] = Inl ValueError \<and>
   py_int [CHR 0x1C, CHR ''5''] = Inl ValueError \<and>
   parse_memory [CHR 0x1C, CHR ''5'', CHR ''G''] = Inr 5368709120 \<and>
   parse_memory [CHR ''5'', CHR 0x1C] = Inr 5"
proof -
  have ev: "py_int ''2'' = Inr 2" "py_int ''512'' = Inr 512" "py_int ''4'' = Inr 4"
    "py_int ''1024'' = Inr 1024" "py_int ''1.5'' = Inl ValueError"
    "py_int ''5'' = Inr 5"
    "py_int [CHR ''5'', CHR 0x1C] = Inl ValueError"
    "py_int [CHR 0x1C, CHR ''5''] = Inl ValueError"
    "lstrip ''2'' = ''2''" "lstrip ''512'' = ''512''" "lstrip ''4'' = ''4''"
    "lstrip ''1.5'' = ''1.5''" "lstrip [CHR ''5'', CHR 0x1C] = [CHR ''5'', CHR 0x1C]"
    "lstrip [CHR 0x1C, CHR ''5''] = ''5''"
    "strip [CHR ''5'', CHR 0x1C] = ''5''"
    "upper (strip ''2T'') = ''2T''" "upper ''5'' = ''5''"
    "digit_val (CHR ''T'') = None"
    by (simp_all add: py_int_def signed_int_def unsigned_int_def digit_val_def strip_def
        lstrip_def trim_def is_space_def is_c_space_def upper_def upper_char_def)
  from parse_memory_suffix_rules [of "''2''" 2 0 "''1024''" 1024 "''2T''"]
  have a: "parse_memory ''2G'' = Inr 2147483648" "parse_memory ''1024'' = Inr 1024"
    "parse_memory ''2T'' = Inl ValueError"
    by (simp_all add: ev)
  from parse_memory_suffix_rules [of "''512''" 512 0 "''1024''" 1024 "''2T''"]
  have b: "parse_memory ''512M'' = Inr 536870912"
    by (simp add: ev)
  from parse_memory_suffix_rules [of "''4''" 4 0 "''1024''" 1024 "''2T''"]
  have c: "parse_memory ''4K'' = Inr 4096"
    by (simp add: ev)
  from parse_memory_suffix_rules [of "''1.5''" 0 0 "''1024''" 1024 "''2T''"]
  have d: "parse_memory ''1.5G'' = Inl ValueError"
    by (simp add: ev)
  from parse_memory_suffix_rules [of "[CHR ''5'', CHR 0x1C]" 0 0 "[CHR ''5'', CHR 0x1C]" 0 "''2T''"]
  have e: "parse_memory [CHR ''5'', CHR 0x1C, CHR ''G''] = Inl ValueError"
    "parse_memory [CHR ''5'', CHR 0x1C] = Inr 5"
    by (simp_all add: ev)
  from parse_memory_suffix_rules [of "[CHR 0x1C, CHR ''5'']" 0 0 "''1024''" 1024 "''2T''"]
  have f: "parse_memory [CHR 0x1C, CHR ''5'', CHR ''G''] = Inr 5368709120"
    by (simp add: ev)
  from a b c d e f ev(8) show ?thesis by simp
qed

lemma format_memory_parse:
  "parse_memory (format_memory b) =
     Inr (if b \<ge> 2 ^ 30 then b div 2 ^ 30 * 2 ^ 30
          else if b \<ge> 2 ^ 20 then b div 2 ^ 20 * 2 ^ 20 else b div 2 ^ 10 * 2 ^ 10)"
  by (simp add: format_memory_def parse_memory_G parse_memory_M parse_memory_K lstrip_str
      py_int_str)

lemma div_mult_le_int: "0 < k \<Longrightarrow> (b::int) div k * k \<le> b"
  using div_mult_mod_eq [of b k] pos_mod_sign [of k b] by linarith

text \<open>
  Claim C8. For a byte count \<open>b \<ge> 0\<close>, parsing what \<^verbatim>\<open>format_memory\<close> displays for \<open>b\<close>
  succeeds with a value in the size bucket of \<open>b\<close>; the value is at most \<open>b\<close> and is
  displayed as \<open>b\<close> is. And 2147483648 is displayed as \<open>2G\<close>, which parses to 2147483648.
\<close>

theorem format_parse_same_bucket:
  "(0 \<le> b \<longrightarrow>
      (\<exists>v. parse_memory (format_memory b) = Inr v \<and> bucket_of v = bucket_of b \<and>
           v \<le> b \<and> format_memory v = format_memory b)) \<and>
   format_memory 2147483648 = ''2G'' \<and> parse_memory ''2G'' = Inr 2147483648"
proof -
  let ?v = "if b \<ge> 2 ^ 30 then b div 2 ^ 30 * 2 ^ 30
          else if b \<ge> 2 ^ 20 then b div 2 ^ 20 * 2 ^ 20 else b div 2 ^ 10 * 2 ^ 10"
  have le: "?v \<le> b"
    by (simp add: div_mult_le_int del: power_numeral)
  have bk: "bucket_of ?v = bucket_of b"
  proof -
    have "b \<ge> 2 ^ 30 \<Longrightarrow> b div 2 ^ 30 * 2 ^ 30 \<ge> 2 ^ 30"
      by simp
    moreover have "b \<ge> 2 ^ 20 \<Longrightarrow> b div 2 ^ 20 * 2 ^ 20 \<ge> 2 ^ 20"
      by simp
    moreover have "b div 2 ^ 20 * 2 ^ 20 \<le> b" "b div 2 ^ 10 * 2 ^ 10 \<le> b"
      by (simp_all add: div_mult_le_int del: power_numeral)
    ultimately show ?thesis
      unfolding bucket_of_def by (auto simp del: power_numeral)
  qed
  have fm: "format_memory ?v = format_memory b"
    using bk by (auto simp: format_memory_def bucket_of_def split: if_splits)
  have ex: "format_memory 2147483648 = ''2G''"
    by (simp add: format_memory_def str_def digits.simps digit_char_def)
  have "parse_memory (format_memory 2147483648) = Inr 2147483648"
    by (simp add: format_memory_parse)
  with ex have "parse_memory ''2G'' = Inr 2147483648" by simp
  with ex le bk fm format_memory_parse [of b] show ?thesis by blast
qed

text \<open>C8 at one and a half GiB: displayed as \<open>1G\<close>, parsed back to a value in the
  same bucket.\<close>

theorem format_parse_same_bucket_witness:
  "(0::int) \<le> 1610612736 \<and> format_memory 1610612736 = ''1G'' \<and>
   (\<exists>v. parse_memory ''1G'' = Inr v \<and> bucket_of v = GiB \<and> v \<le> 1610612736)"
proof -
  have f: "format_memory 1610612736 = ''1G''"
    by (simp add: format_memory_def str_def digits.simps digit_char_def)
  have s: "bucket_of 1610612736 = GiB"
    by (simp add: bucket_of_def)
  from format_parse_same_bucket [of 1610612736] f s show ?thesis
    by auto
qed

subsection \<open>Enumerating the registry\<close>


lemma is_process_running_eq:
  "is_process_running pid w =
     (case as_pid pid of
        Inl e \<Rightarrow> (Inl e, w)
      | Inr n \<Rightarrow> (Inr (procs w (kills w) n = Alive), probed n w))"
proof (cases "as_pid pid")
  case (Inl e)
  then have "e = TypeError \<or> e = OverflowError"
    by (cases pid) (auto split: if_splits)
  with Inl show ?thesis
    by (auto simp: is_process_running_def os_kill_def)
next
  case (Inr n)
  then show ?thesis
    by (cases "procs w (kills w) n")
       (simp_all add: is_process_running_def os_kill_def probed_def Let_def)
qed

lemma visit_eq:
  "visit f w =
     (case map_of (run_dir w) f of
        None \<Rightarrow> (Inl FileNotFoundError, w)
      | Some Unparsable \<Rightarrow> (Inr None, w)
      | Some Undecodable \<Rightarrow> (Inl UnicodeDecodeError, w)
      | Some TooDeep \<Rightarrow> (Inl RecursionError, w)
      | Some (Parsed info) \<Rightarrow>
          (case py_get info ''pid'' of
             Inl e \<Rightarrow> (Inl e, w)
           | Inr pid \<Rightarrow>
               if \<not> truthy pid then (Inr None, unlink f w)
               else
                 (case as_pid pid of
                    Inl e \<Rightarrow> (Inl e, w)
                  | Inr n \<Rightarrow>
                      if procs w (kills w) n = Alive then (Inr (Some info), probed n w)
                      else (Inr None, unlink f (probed n w)))))"
  by (simp add: visit_def is_process_running_eq split: option.splits content.splits sum.splits)

lemma run_dir_probed [simp]: "run_dir (probed n w) = run_dir w"
  by (simp add: probed_def emit_def)

lemma run_dir_unlink [simp]: "run_dir (unlink f w) = AList.delete f (run_dir w)"
  by (simp add: unlink_def)

lemma trace_unlink [simp]: "trace (unlink f w) = trace w"
  by (simp add: unlink_def)

lemma trace_probed [simp]: "trace (probed n w) = trace w @ [Kill n SIG0 (procs w (kills w) n)]"
  by (simp add: probed_def emit_def)

lemma kills_unlink [simp]: "kills (unlink f w) = kills w"
  by (simp add: unlink_def)

lemma procs_unlink [simp]: "procs (unlink f w) = procs w"
  by (simp add: unlink_def)

lemma probed_unlink: "probed n (unlink f w) = unlink f (probed n w)"
  by (simp add: probed_def unlink_def emit_def)

lemma unlink_twist: "unlink f (unlink g w) = unlink g (unlink f w)"
  by (simp add: unlink_def delete_twist)

lemma map_of_delete_other: "g \<noteq> f \<Longrightarrow> map_of (AList.delete f al) g = map_of al g"
  by (simp add: delete_conv')

lemma map_of_delete_same: "map_of (AList.delete f al) f = None"
  by (simp add: delete_conv')

text \<open>Visiting one file commutes with the removal of another.\<close>

lemma visit_unlink_other:
  assumes "g \<noteq> f"
  shows "visit g (unlink f w) = (case visit g w of (r, w1) \<Rightarrow> (r, unlink f w1))"
  using assms
  by (simp add: visit_eq map_of_delete_other probed_unlink unlink_twist
      split: option.splits content.splits sum.splits)

lemma same_env_refl [simp]: "same_env w w"
  by (simp add: same_env_def)

lemma same_env_trans: "same_env a b \<Longrightarrow> same_env b c \<Longrightarrow> same_env a c"
  by (simp add: same_env_def)

lemma same_env_unlink [simp]: "same_env w (unlink f w)"
  by (simp add: same_env_def unlink_def)

lemma same_env_probed [simp]: "same_env w (probed n w)"
  by (simp add: same_env_def probed_def emit_def)

lemma same_env_print [simp]: "same_env w (print m w)"
  by (simp add: same_env_def print_def)

lemma same_env_emit [simp]: "same_env w (emit e w)"
  by (simp add: same_env_def emit_def)

text \<open>What one visit can do to the world: nothing, a probe, a removal of the visited
  file, or both.\<close>

lemma visit_world:
  assumes "visit f w = (r, w1)"
  shows "w1 = w \<or> w1 = unlink f w \<or> (\<exists>n. w1 = probed n w \<or> w1 = unlink f (probed n w))"
  using assms
  by (auto simp: visit_eq split: option.splits content.splits sum.splits if_splits)


lemma visit_same_env: "visit f w = (r, w1) \<Longrightarrow> same_env w w1"
  by (auto dest!: visit_world intro: same_env_trans [OF same_env_probed same_env_unlink])

lemma visit_trace: "visit f w = (r, w1) \<Longrightarrow> \<exists>evs. trace w1 = trace w @ evs"
  by (auto dest!: visit_world)

lemma visit_other_file: "visit f w = (r, w1) \<Longrightarrow> g \<noteq> f \<Longrightarrow> map_of (run_dir w1) g = map_of (run_dir w) g"
  by (auto dest!: visit_world simp: map_of_delete_other)

lemma visit_submap:
  "visit f w = (r, w1) \<Longrightarrow> map_of (run_dir w1) g = None \<or> map_of (run_dir w1) g = map_of (run_dir w) g"
  by (cases "g = f") (auto dest!: visit_world simp: map_of_delete_other map_of_delete_same)

lemma scan_Cons_eq:
  "scan (f # fs) vms w =
     (case visit f w of
        (Inl e, w1) \<Rightarrow> (Inl e, w1)
      | (Inr r, w1) \<Rightarrow> scan fs (vms @ (case r of None \<Rightarrow> [] | Some info \<Rightarrow> [info])) w1)"
  by (simp split: prod.splits sum.splits option.splits)

lemma scan_ConsE:
  assumes "scan (f # fs) vms w = (Inr vms', w')"
  obtains r w1 where "visit f w = (Inr r, w1)"
    and "scan fs (vms @ (case r of None \<Rightarrow> [] | Some info \<Rightarrow> [info])) w1 = (Inr vms', w')"
  using assms unfolding scan_Cons_eq
  by (auto split: prod.splits sum.splits)

declare scan.simps(2) [simp del]

lemma scan_same_env: "scan fs vms w = (r, w') \<Longrightarrow> same_env w w'"
proof (induction fs arbitrary: vms w)
  case Nil
  then show ?case by simp
next
  case (Cons f fs)
  obtain r1 w1 where v: "visit f w = (r1, w1)" by (cases "visit f w")
  then have e: "same_env w w1" by (rule visit_same_env)
  show ?case
  proof (cases r1)
    case (Inl err)
    with Cons.prems v show ?thesis using e by (simp add: scan_Cons_eq)
  next
    case (Inr x)
    with Cons.prems v have "scan fs (vms @ (case x of None \<Rightarrow> [] | Some info \<Rightarrow> [info])) w1 = (r, w')"
      by (simp add: scan_Cons_eq)
    then have "same_env w1 w'" by (rule Cons.IH)
    with e show ?thesis by (rule same_env_trans)
  qed
qed

lemma scan_trace: "scan fs vms w = (r, w') \<Longrightarrow> \<exists>evs. trace w' = trace w @ evs"
proof (induction fs arbitrary: vms w)
  case Nil
  then show ?case by simp
next
  case (Cons f fs)
  obtain r1 w1 where v: "visit f w = (r1, w1)" by (cases "visit f w")
  then obtain e1 where e: "trace w1 = trace w @ e1" by (auto dest: visit_trace)
  show ?case
  proof (cases r1)
    case (Inl err)
    with Cons.prems v show ?thesis using e by (simp add: scan_Cons_eq)
  next
    case (Inr x)
    with Cons.prems v have "scan fs (vms @ (case x of None \<Rightarrow> [] | Some info \<Rightarrow> [info])) w1 = (r, w')"
      by (simp add: scan_Cons_eq)
    then obtain e2 where "trace w' = trace w1 @ e2" using Cons.IH by blast
    with e show ?thesis by simp
  qed
qed

lemma scan_submap:
  "scan fs vms w = (r, w') \<Longrightarrow>
     map_of (run_dir w') g = None \<or> map_of (run_dir w') g = map_of (run_dir w) g"
proof (induction fs arbitrary: vms w)
  case Nil
  then show ?case by simp
next
  case (Cons f fs)
  obtain r1 w1 where v: "visit f w = (r1, w1)" by (cases "visit f w")
  from visit_submap [OF v, of g]
  have e: "map_of (run_dir w1) g = None \<or> map_of (run_dir w1) g = map_of (run_dir w) g" .
  show ?case
  proof (cases r1)
    case (Inl err)
    with Cons.prems v show ?thesis using e by (simp add: scan_Cons_eq)
  next
    case (Inr x)
    with Cons.prems v have "scan fs (vms @ (case x of None \<Rightarrow> [] | Some info \<Rightarrow> [info])) w1 = (r, w')"
      by (simp add: scan_Cons_eq)
    from Cons.IH [OF this] e show ?thesis by auto
  qed
qed

lemma scan_untouched:
  "scan fs vms w = (r, w') \<Longrightarrow> g \<notin> set fs \<Longrightarrow> map_of (run_dir w') g = map_of (run_dir w) g"
proof (induction fs arbitrary: vms w)
  case Nil
  then show ?case by simp
next
  case (Cons f fs)
  obtain r1 w1 where v: "visit f w = (r1, w1)" by (cases "visit f w")
  from Cons.prems have "g \<noteq> f" by auto
  with v have e: "map_of (run_dir w1) g = map_of (run_dir w) g"
    by (rule visit_other_file)
  show ?case
  proof (cases r1)
    case (Inl err)
    with Cons.prems v show ?thesis using e by (simp add: scan_Cons_eq)
  next
    case (Inr x)
    with Cons.prems v have "scan fs (vms @ (case x of None \<Rightarrow> [] | Some info \<Rightarrow> [info])) w1 = (r, w')"
      by (simp add: scan_Cons_eq)
    from Cons.IH [OF this] Cons.prems e show ?thesis by simp
  qed
qed

text \<open>What a visit that appends nothing, or a record, says about the visited file
  afterwards.\<close>

lemma visit_survivor:
  assumes "visit f w = (Inr r, w1)"
  shows "(case map_of (run_dir w1) f of Some (Parsed info) \<Rightarrow> Some info | _ \<Rightarrow> None) = r"
  using assms
  by (auto simp: visit_eq map_of_delete_same split: option.splits content.splits sum.splits if_splits)

lemma survivors_Cons:
  "survivors w (f # fs) =
     (case (case map_of (run_dir w) f of Some (Parsed info) \<Rightarrow> Some info | _ \<Rightarrow> None) of
        None \<Rightarrow> [] | Some info \<Rightarrow> [info]) @ survivors w fs"
  by (simp add: survivors_def List.map_filter_simps split: option.splits content.splits)

lemma scan_result:
  "distinct fs \<Longrightarrow> scan fs vms w = (Inr vms', w') \<Longrightarrow> vms' = vms @ survivors w' fs"
proof (induction fs arbitrary: vms w)
  case Nil
  then show ?case by (simp add: survivors_def List.map_filter_simps)
next
  case (Cons f fs)
  from Cons.prems(2) obtain r w1 where v: "visit f w = (Inr r, w1)"
    and s: "scan fs (vms @ (case r of None \<Rightarrow> [] | Some info \<Rightarrow> [info])) w1 = (Inr vms', w')"
    by (rule scan_ConsE)
  from Cons.prems(1) have d: "distinct fs" and nf: "f \<notin> set fs" by auto
  from scan_untouched [OF s nf] have "map_of (run_dir w') f = map_of (run_dir w1) f" .
  with visit_survivor [OF v]
  have "(case map_of (run_dir w') f of Some (Parsed info) \<Rightarrow> Some info | _ \<Rightarrow> None) = r"
    by simp
  with Cons.IH [OF d s] show ?case
    by (simp add: survivors_Cons)
qed

lemma new_events_append: "trace w' = trace w @ evs \<Longrightarrow> new_events w w' = evs"
  by (simp add: new_events_def)

lemma confirmed_alive_mono:
  assumes "confirmed_alive info w1 w'" and "trace w1 = trace w @ e1" and "trace w' = trace w1 @ e2"
  shows "confirmed_alive info w w'"
proof -
  from assms(2,3) have "new_events w w' = e1 @ e2" "new_events w1 w' = e2"
    by (simp_all add: new_events_def)
  with assms(1) show ?thesis
    by (auto simp: confirmed_alive_def split: sum.splits)
qed

lemma visit_kept:
  assumes "visit f w = (Inr (Some info), w1)"
  shows "map_of (run_dir w) f = Some (Parsed info) \<and> map_of (run_dir w1) f = Some (Parsed info) \<and>
         (\<exists>pid n. py_get info ''pid'' = Inr pid \<and> truthy pid \<and> as_pid pid = Inr n \<and>
                  procs w (kills w) n = Alive \<and> w1 = probed n w)"
  using assms
  by (auto simp: visit_eq split: option.splits content.splits sum.splits if_splits)

lemma visit_dropped:
  assumes "visit f w = (Inr None, w1)" and "map_of (run_dir w) f = Some (Parsed info)"
  shows "map_of (run_dir w1) f = None"
  using assms
  by (auto simp: visit_eq map_of_delete_same split: option.splits content.splits sum.splits if_splits)

lemma scan_entry:
  assumes "scan fs vms w = (Inr vms', w')" and "f \<in> set fs"
    and "map_of (run_dir w) f = Some (Parsed info)"
  shows "(map_of (run_dir w') f = Some (Parsed info) \<and> confirmed_alive info w w') \<or>
         map_of (run_dir w') f = None"
  using assms
proof (induction fs arbitrary: vms w)
  case Nil
  then show ?case by simp
next
  case (Cons g fs)
  from Cons.prems(1) obtain r w1 where v: "visit g w = (Inr r, w1)"
    and s: "scan fs (vms @ (case r of None \<Rightarrow> [] | Some i \<Rightarrow> [i])) w1 = (Inr vms', w')"
    by (rule scan_ConsE)
  from visit_trace [OF v] obtain e1 where e1: "trace w1 = trace w @ e1" by blast
  from scan_trace [OF s] obtain e2 where e2: "trace w' = trace w1 @ e2" by blast
  from scan_submap [OF s, of f]
  have sub: "map_of (run_dir w') f = None \<or> map_of (run_dir w') f = map_of (run_dir w1) f" .
  show ?case
  proof (cases "g = f")
    case True
    show ?thesis
    proof (cases r)
      case None
      with v True Cons.prems(3) have "map_of (run_dir w1) f = None"
        by (auto dest: visit_dropped)
      with sub show ?thesis by auto
    next
      case (Some i)
      with v True have k: "map_of (run_dir w) f = Some (Parsed i)"
        "map_of (run_dir w1) f = Some (Parsed i)"
        and "\<exists>pid n. py_get i ''pid'' = Inr pid \<and> truthy pid \<and> as_pid pid = Inr n \<and>
                  procs w (kills w) n = Alive \<and> w1 = probed n w"
        using visit_kept [of f w i w1] by auto
      then obtain pid n where p: "py_get i ''pid'' = Inr pid" "truthy pid" "as_pid pid = Inr n"
        "procs w (kills w) n = Alive" "w1 = probed n w" by blast
      from k Cons.prems(3) have i: "i = info" by simp
      from p e2 have "trace w' = trace w @ (Kill n SIG0 Alive # e2)" by simp
      then have "new_events w w' = Kill n SIG0 Alive # e2" by (rule new_events_append)
      with p i have "confirmed_alive info w w'"
        by (simp add: confirmed_alive_def)
      with sub k i show ?thesis by auto
    qed
  next
    case False
    with Cons.prems(2) have in_fs: "f \<in> set fs" by simp
    from False visit_other_file [OF v, of f] Cons.prems(3)
    have "map_of (run_dir w1) f = Some (Parsed info)" by simp
    from Cons.IH [OF s in_fs this] confirmed_alive_mono [OF _ e1 e2, of info] show ?thesis by auto
  qed
qed


text \<open>Removing a file the enumeration would only skip, or only remove, changes nothing
  else.\<close>

lemma scan_skip_unparsable:
  assumes "map_of (run_dir w) f = Some Unparsable"
  shows "scan (removeAll f fs) vms (unlink f w) = (case scan fs vms w of (r, w') \<Rightarrow> (r, unlink f w'))"
  using assms
proof (induction fs arbitrary: vms w)
  case Nil
  then show ?case by simp
next
  case (Cons g fs)
  show ?case
  proof (cases "g = f")
    case True
    with Cons.prems have "visit g w = (Inr None, w)"
      by (simp add: visit_eq)
    with True Cons.IH [OF Cons.prems] show ?thesis
      by (simp add: scan_Cons_eq)
  next
    case False
    obtain r1 w1 where v: "visit g w = (r1, w1)" by (cases "visit g w")
    with False have v': "visit g (unlink f w) = (r1, unlink f w1)"
      by (simp add: visit_unlink_other)
    from False visit_other_file [OF v, of f] Cons.prems
    have "map_of (run_dir w1) f = Some Unparsable" by simp
    from Cons.IH [OF this] False v v' show ?thesis
      by (cases r1) (simp_all add: scan_Cons_eq)
  qed
qed

lemma scan_unparsable_stays:
  assumes "scan fs vms w = (r, w')" and "map_of (run_dir w) f = Some Unparsable"
  shows "map_of (run_dir w') f = Some Unparsable"
  using assms
proof (induction fs arbitrary: vms w)
  case Nil
  then show ?case by simp
next
  case (Cons g fs)
  obtain r1 w1 where v: "visit g w = (r1, w1)" by (cases "visit g w")
  have k: "map_of (run_dir w1) f = Some Unparsable"
  proof (cases "g = f")
    case True
    with Cons.prems(2) v show ?thesis by (simp add: visit_eq)
  next
    case False
    with visit_other_file [OF v, of f] Cons.prems(2) show ?thesis by simp
  qed
  show ?case
  proof (cases r1)
    case (Inl e)
    with Cons.prems(1) v k show ?thesis by (simp add: scan_Cons_eq)
  next
    case (Inr x)
    with Cons.prems(1) v
    have "scan fs (vms @ (case x of None \<Rightarrow> [] | Some info \<Rightarrow> [info])) w1 = (r, w')"
      by (simp add: scan_Cons_eq)
    from Cons.IH [OF this k] show ?thesis .
  qed
qed

lemma scan_skip_falsy:
  assumes "map_of (run_dir w) f = Some (Parsed info)" and "py_get info ''pid'' = Inr pid"
    and "\<not> truthy pid" and "f \<in> set fs" and "distinct fs"
    and "scan fs vms w = (Inr vms', w')"
  shows "scan (removeAll f fs) vms (unlink f w) = (Inr vms', w')"
  using assms(1,4,5,6)
proof (induction fs arbitrary: vms w)
  case Nil
  then show ?case by simp
next
  case (Cons g fs)
  show ?case
  proof (cases "g = f")
    case True
    with Cons.prems(1) assms(2,3) have "visit g w = (Inr None, unlink f w)"
      by (simp add: visit_eq)
    with Cons.prems(4) True have "scan fs vms (unlink f w) = (Inr vms', w')"
      by (simp add: scan_Cons_eq)
    moreover from Cons.prems(3) True have "removeAll f (g # fs) = fs"
      by simp
    ultimately show ?thesis by simp
  next
    case False
    from Cons.prems(4) obtain r w1 where v: "visit g w = (Inr r, w1)"
      and s: "scan fs (vms @ (case r of None \<Rightarrow> [] | Some i \<Rightarrow> [i])) w1 = (Inr vms', w')"
      by (rule scan_ConsE)
    from v False have v': "visit g (unlink f w) = (Inr r, unlink f w1)"
      by (simp add: visit_unlink_other)
    from False visit_other_file [OF v, of f] Cons.prems(1)
    have "map_of (run_dir w1) f = Some (Parsed info)" by simp
    moreover from False Cons.prems(2) have "f \<in> set fs" by simp
    moreover from Cons.prems(3) have "distinct fs" by simp
    ultimately have "scan (removeAll f fs) (vms @ (case r of None \<Rightarrow> [] | Some i \<Rightarrow> [i]))
        (unlink f w1) = (Inr vms', w')"
      using s by (rule Cons.IH)
    with False v' show ?thesis
      by (simp add: scan_Cons_eq)
  qed
qed

text \<open>The enumeration returns when every file is one the loop passes.\<close>

lemma visit_returns:
  assumes "case map_of (run_dir w) g of
           None \<Rightarrow> False | Some c \<Rightarrow> passable c"
  shows "\<exists>r w1. visit g w = (Inr r, w1)"
  using assms
  by (auto simp: visit_eq readable_def passable_def
      split: option.splits content.splits sum.splits)

lemma scan_returns:
  assumes "distinct fs"
    and "\<forall>f \<in> set fs. case map_of (run_dir w) f of
           None \<Rightarrow> False | Some c \<Rightarrow> passable c"
  shows "\<exists>vms' w'. scan fs vms w = (Inr vms', w')"
  using assms
proof (induction fs arbitrary: vms w)
  case Nil
  then show ?case by simp
next
  case (Cons g fs)
  from Cons.prems(2)
  have "case map_of (run_dir w) g of
           None \<Rightarrow> False | Some c \<Rightarrow> passable c"
    by simp
  then obtain r w1 where v: "visit g w = (Inr r, w1)"
    using visit_returns by blast
  from Cons.prems(1) have d: "distinct fs" and ng: "g \<notin> set fs" by auto
  have "\<forall>f \<in> set fs. case map_of (run_dir w1) f of
           None \<Rightarrow> False | Some c \<Rightarrow> passable c"
  proof
    fix f assume f: "f \<in> set fs"
    with ng have "f \<noteq> g" by auto
    with visit_other_file [OF v, of f] have "map_of (run_dir w1) f = map_of (run_dir w) f"
      by simp
    with Cons.prems(2) f show "case map_of (run_dir w1) f of
           None \<Rightarrow> False | Some c \<Rightarrow> passable c"
      by simp
  qed
  from Cons.IH [OF d this] v show ?case
    by (simp add: scan_Cons_eq)
qed

lemma map_fst_delete: "map fst (AList.delete f al) = removeAll f (map fst al)"
  by (induction al) auto

lemma glob_json_unlink: "glob_json (unlink f w) = removeAll f (glob_json w)"
  by (simp add: glob_json_def map_fst_delete removeAll_filter_not_eq conj_commute)

lemma distinct_glob_json: "distinct (map fst (run_dir w)) \<Longrightarrow> distinct (glob_json w)"
  by (simp add: glob_json_def)

lemma glob_json_dom: "f \<in> set (glob_json w) \<Longrightarrow> map_of (run_dir w) f \<noteq> None"
  by (auto simp: glob_json_def map_of_eq_None_iff)


lemma get_running_vms_scan: "get_running_vms w = scan (glob_json w) [] w"
  by (simp add: get_running_vms_def ensure_dirs_def)

lemma map_filter_cong_set: "(\<And>x. x \<in> set xs \<Longrightarrow> f x = g x) \<Longrightarrow> List.map_filter f xs = List.map_filter g xs"
  by (induction xs) (auto simp: List.map_filter_simps split: option.splits)

lemma visit_static:
  assumes "case map_of (run_dir w) f of
             None \<Rightarrow> False | Some c \<Rightarrow> passable c"
  shows "\<exists>w1. visit f w = (Inr (live_record (procs w (kills w)) w f), w1)"
  using assms
  by (auto simp: visit_eq readable_def passable_def live_record_def live_in_def
      split: option.splits content.splits sum.splits)

text \<open>With a process table that does not change during the enumeration, the result is
  the list of the records whose process the table has alive.\<close>

lemma scan_static:
  assumes "\<forall>k. procs w k = t" and "distinct fs"
    and "\<forall>f \<in> set fs. case map_of (run_dir w) f of
           None \<Rightarrow> False | Some c \<Rightarrow> passable c"
  shows "fst (scan fs vms w) = Inr (vms @ List.map_filter (live_record t w) fs)"
  using assms
proof (induction fs arbitrary: vms w)
  case Nil
  then show ?case by (simp add: List.map_filter_simps)
next
  case (Cons g fs)
  from Cons.prems(3)
  have "case map_of (run_dir w) g of
           None \<Rightarrow> False | Some c \<Rightarrow> passable c"
    by simp
  from visit_static [OF this] Cons.prems(1)
  obtain w1 where v: "visit g w = (Inr (live_record t w g), w1)" by auto
  from visit_same_env [OF v] Cons.prems(1) have st: "\<forall>k. procs w1 k = t"
    by (simp add: same_env_def)
  from Cons.prems(2) have d: "distinct fs" and ng: "g \<notin> set fs" by auto
  have same: "map_of (run_dir w1) f = map_of (run_dir w) f" if "f \<in> set fs" for f
    using visit_other_file [OF v, of f] that ng by auto
  with Cons.prems(3) have rd: "\<forall>f \<in> set fs. case map_of (run_dir w1) f of
           None \<Rightarrow> False | Some c \<Rightarrow> passable c"
    by simp
  have m: "List.map_filter (live_record t w1) fs = List.map_filter (live_record t w) fs"
    by (rule map_filter_cong_set) (simp add: live_record_def same)
  from Cons.IH [OF st d rd, of "vms @ (case live_record t w g of None \<Rightarrow> [] | Some info \<Rightarrow> [info])"]
  show ?case
    by (simp add: scan_Cons_eq v m List.map_filter_simps split: option.splits)
qed

lemma get_running_vms_static:
  assumes "\<forall>k. procs w k = t" and "distinct (map fst (run_dir w))"
    and "\<forall>g \<in> set (glob_json w). \<forall>c. map_of (run_dir w) g = Some c \<longrightarrow> passable c"
  shows "fst (get_running_vms w) = Inr (live_records t w)"
proof -
  have "\<forall>g \<in> set (glob_json w). case map_of (run_dir w) g of
           None \<Rightarrow> False | Some c \<Rightarrow> passable c"
    using assms(3) glob_json_dom [of _ w] by (auto split: option.splits)
  from scan_static [OF assms(1) distinct_glob_json [OF assms(2)] this, of "[]"]
  show ?thesis
    by (simp add: get_running_vms_scan live_records_def)
qed



lemmas world_simps = print_def emit_def unlink_def write_file_def probed_def ensure_dirs_def
  file_exists_def remove_vm_info_def

lemma mixed_registry_run:
  "get_running_vms mixed_registry =
     (Inr [vm_record ''alpha'' 100],
      mixed_registry
        \<lparr>run_dir := [(''alpha.json'', Parsed (vm_record ''alpha'' 100)),
                     (''torn.json'', Unparsable), (''alpha.log'', Unparsable)],
         kills := 2,
         trace := [Kill 100 SIG0 Alive, Kill 200 SIG0 Gone]\<rparr>)"
  by (simp add: get_running_vms_def glob_json_def endswith_def mixed_registry_def quiet_world_def
      vm_record_def scan.simps visit_eq world_simps)


lemma survivors_member:
  "info \<in> set (survivors w fs) \<longleftrightarrow> (\<exists>f \<in> set fs. map_of (run_dir w) f = Some (Parsed info))"
  by (induction fs) (auto simp: survivors_Cons survivors_def List.map_filter_simps
      split: option.splits content.splits)


text \<open>
  Claim C1. When an enumeration of a registry (a directory: no two files of one name)
  returns, its result is the list of the records whose file is still there; for each of
  them a liveness probe of its pid was answered "alive" during this call; and every file
  that parsed either is still there with such a probe, or was deleted by this call (and
  then its record is not part of the result). Files that do not match \<^verbatim>\<open>*.json\<close> are not
  touched.
\<close>

theorem enumeration_alive_or_reclaimed:
  assumes "distinct (map fst (run_dir w))" and "get_running_vms w = (Inr vms, w')"
  shows "vms = survivors w' (glob_json w) \<and>
         (\<forall>vm \<in> set vms. confirmed_alive vm w w') \<and>
         (\<forall>f \<in> set (glob_json w). \<forall>info. map_of (run_dir w) f = Some (Parsed info) \<longrightarrow>
            (map_of (run_dir w') f = Some (Parsed info) \<and> confirmed_alive info w w') \<or>
            map_of (run_dir w') f = None) \<and>
         (\<forall>g. g \<notin> set (glob_json w) \<longrightarrow> map_of (run_dir w') g = map_of (run_dir w) g)"
proof -
  let ?fs = "glob_json w"
  from assms(2) have s: "scan ?fs [] w = (Inr vms, w')"
    by (simp add: get_running_vms_scan)
  from assms(1) have d: "distinct ?fs" by (rule distinct_glob_json)
  from scan_result [OF d s] have res: "vms = survivors w' ?fs" by simp
  have entry: "(map_of (run_dir w') f = Some (Parsed info) \<and> confirmed_alive info w w') \<or>
         map_of (run_dir w') f = None"
    if "f \<in> set ?fs" "map_of (run_dir w) f = Some (Parsed info)" for f info
    using s that by (rule scan_entry)
  have alive: "confirmed_alive vm w w'" if "vm \<in> set vms" for vm
  proof -
    from that res obtain f where f: "f \<in> set ?fs" "map_of (run_dir w') f = Some (Parsed vm)"
      by (auto simp: survivors_member)
    with scan_submap [OF s, of f] have "map_of (run_dir w) f = Some (Parsed vm)" by auto
    from entry [OF f(1) this] f(2) show ?thesis by simp
  qed
  have other: "map_of (run_dir w') g = map_of (run_dir w) g" if "g \<notin> set ?fs" for g
    using s that by (rule scan_untouched)
  show ?thesis
  proof (intro conjI ballI allI impI)
    show "vms = survivors w' ?fs" by (rule res)
  next
    fix vm assume "vm \<in> set vms"
    then show "confirmed_alive vm w w'" by (rule alive)
  next
    fix f info assume "f \<in> set ?fs" "map_of (run_dir w) f = Some (Parsed info)"
    then show "(map_of (run_dir w') f = Some (Parsed info) \<and> confirmed_alive info w w') \<or>
         map_of (run_dir w') f = None" by (rule entry)
  next
    fix g assume "g \<notin> set ?fs"
    then show "map_of (run_dir w') g = map_of (run_dir w) g" by (rule other)
  qed
qed

text \<open>C1 on the mixed registry: the result is the record of the running process 100, the
  record of the dead process 200 is deleted, the log is kept.\<close>

theorem enumeration_alive_or_reclaimed_witness:
  "distinct (map fst (run_dir mixed_registry)) \<and>
   fst (get_running_vms mixed_registry) = Inr [vm_record ''alpha'' 100] \<and>
   confirmed_alive (vm_record ''alpha'' 100) mixed_registry (snd (get_running_vms mixed_registry)) \<and>
   map_of (run_dir (snd (get_running_vms mixed_registry))) ''beta.json'' = None \<and>
   map_of (run_dir (snd (get_running_vms mixed_registry))) ''alpha.log'' = Some Unparsable"
proof -
  have d: "distinct (map fst (run_dir mixed_registry))"
    by (simp add: mixed_registry_def quiet_world_def)
  have g: "glob_json mixed_registry =
      [''alpha.json'', ''beta.json'', ''torn.json'', ''nopid.json'', ''null.json'', ''zero.json'']"
    by (simp add: glob_json_def endswith_def mixed_registry_def quiet_world_def)
  have m: "map_of (run_dir mixed_registry) ''beta.json'' = Some (Parsed (vm_record ''beta'' 200))"
    "map_of (run_dir mixed_registry) ''alpha.log'' = Some Unparsable"
    by (simp_all add: mixed_registry_def quiet_world_def)
  have nb: "\<not> confirmed_alive (vm_record ''beta'' 200) mixed_registry
      (snd (get_running_vms mixed_registry))"
    by (simp add: mixed_registry_run confirmed_alive_def new_events_def vm_record_def)
       (simp add: mixed_registry_def quiet_world_def)
  from enumeration_alive_or_reclaimed [OF d mixed_registry_run]
  show ?thesis
    using d g m nb by (simp add: mixed_registry_run)
qed

text \<open>
  A file of the registry on which \<^verbatim>\<open>json.load\<close> raises \<^verbatim>\<open>JSONDecodeError\<close> changes nothing
  in an enumeration but its own presence: with the file, the enumeration gives the
  result (or raises the exception) it gives without it, sends the same probes and removes
  the same files; the file itself is left where it is. The enumeration returns when every
  file is one the loop passes; what it returns are the records whose file is kept; and if
  the process table does not change during the enumeration, these are all the records
  whose process the table has alive.
\<close>

lemma unparsable_entry_skipped:
  assumes "map_of (run_dir w) f = Some Unparsable"
  shows "get_running_vms (unlink f w) = (case get_running_vms w of (r, w') \<Rightarrow> (r, unlink f w')) \<and>
         map_of (run_dir (snd (get_running_vms w))) f = Some Unparsable \<and>
         (distinct (map fst (run_dir w)) \<and>
          (\<forall>g \<in> set (glob_json w). \<forall>c. map_of (run_dir w) g = Some c \<longrightarrow> passable c)
          \<longrightarrow> (\<exists>vms w'. get_running_vms w = (Inr vms, w') \<and> vms = survivors w' (glob_json w)) \<and>
              ((\<forall>k. procs w k = t) \<longrightarrow> fst (get_running_vms w) = Inr (live_records t w)))"
proof -
  have a: "get_running_vms (unlink f w) = (case get_running_vms w of (r, w') \<Rightarrow> (r, unlink f w'))"
    using scan_skip_unparsable [OF assms, of "glob_json w" "[]"]
    by (simp add: get_running_vms_scan glob_json_unlink)
  obtain r w' where s: "scan (glob_json w) [] w = (r, w')"
    by (cases "scan (glob_json w) [] w")
  from scan_unparsable_stays [OF s assms]
  have b: "map_of (run_dir (snd (get_running_vms w))) f = Some Unparsable"
    by (simp add: get_running_vms_scan s)
  have c: "\<exists>vms w'. get_running_vms w = (Inr vms, w') \<and> vms = survivors w' (glob_json w)"
    if d: "distinct (map fst (run_dir w))"
      and rd: "\<forall>g \<in> set (glob_json w). \<forall>c. map_of (run_dir w) g = Some c \<longrightarrow> passable c"
  proof -
    have "\<forall>g \<in> set (glob_json w). case map_of (run_dir w) g of
           None \<Rightarrow> False | Some c \<Rightarrow> passable c"
      using rd glob_json_dom [of _ w] by (auto split: option.splits)
    from scan_returns [OF distinct_glob_json [OF d] this, of "[]"]
    obtain vms w1 where r: "scan (glob_json w) [] w = (Inr vms, w1)" by blast
    from scan_result [OF distinct_glob_json [OF d] r] r show ?thesis
      by (simp add: get_running_vms_scan)
  qed
  have e: "fst (get_running_vms w) = Inr (live_records t w)"
    if "distinct (map fst (run_dir w))"
      and "\<forall>g \<in> set (glob_json w). \<forall>c. map_of (run_dir w) g = Some c \<longrightarrow> passable c"
      and "\<forall>k. procs w k = t"
    using that(3,1,2) by (rule get_running_vms_static)
  from a b c e show ?thesis by blast
qed

text \<open>
  Claim C9, at the failing input. The registry holds the record of \<open>alpha\<close>, whose process
  100 runs, and a file \<open>noise.json\<close> whose bytes are not valid UTF-8. \<^verbatim>\<open>json.load\<close> raises
  \<^verbatim>\<open>UnicodeDecodeError\<close> on it, which \<^verbatim>\<open>except (json.JSONDecodeError, KeyError)\<close> does not
  catch: the enumeration raises, after the probe of process 100, and returns no record;
  so does \<^verbatim>\<open>vmctl stop alpha\<close>, which sends no signal. Without the file, or with a file
  that \<^verbatim>\<open>JSONDecodeError\<close> rejects in its place, the enumeration returns the record of
  \<open>alpha\<close>. A file nested too deeply in the same place makes it raise \<^verbatim>\<open>RecursionError\<close>.
\<close>

theorem undecodable_entry_aborts_enumeration:
  "get_running_vms garbled_registry =
     (Inl UnicodeDecodeError, garbled_registry\<lparr>kills := 1, trace := [Kill 100 SIG0 Alive]\<rparr>) \<and>
   cmd_stop (stop_args ''alpha'') garbled_registry =
     (Inl UnicodeDecodeError, garbled_registry\<lparr>kills := 1, trace := [Kill 100 SIG0 Alive]\<rparr>) \<and>
   fst (get_running_vms (unlink ''noise.json'' garbled_registry)) =
     Inr [vm_record ''alpha'' 100] \<and>
   fst (get_running_vms (write_file ''noise.json'' Unparsable garbled_registry)) =
     Inr [vm_record ''alpha'' 100] \<and>
   fst (get_running_vms (write_file ''noise.json'' TooDeep garbled_registry)) =
     Inl RecursionError"
proof -
  have a: "get_running_vms garbled_registry =
     (Inl UnicodeDecodeError, garbled_registry\<lparr>kills := 1, trace := [Kill 100 SIG0 Alive]\<rparr>)"
    by (simp add: get_running_vms_def glob_json_def endswith_def garbled_registry_def
        quiet_world_def vm_record_def scan.simps visit_eq world_simps)
  have b: "cmd_stop (stop_args ''alpha'') garbled_registry =
     (Inl UnicodeDecodeError, garbled_registry\<lparr>kills := 1, trace := [Kill 100 SIG0 Alive]\<rparr>)"
    by (simp add: cmd_stop_def a)
  have c: "fst (get_running_vms (unlink ''noise.json'' garbled_registry)) =
     Inr [vm_record ''alpha'' 100]"
    by (simp add: get_running_vms_def glob_json_def endswith_def garbled_registry_def
        quiet_world_def vm_record_def scan.simps visit_eq world_simps)
  have d: "fst (get_running_vms (write_file ''noise.json'' Unparsable garbled_registry)) =
     Inr [vm_record ''alpha'' 100]"
    by (simp add: get_running_vms_def glob_json_def endswith_def garbled_registry_def
        quiet_world_def vm_record_def scan.simps visit_eq world_simps)
  have e: "fst (get_running_vms (write_file ''noise.json'' TooDeep garbled_registry)) =
     Inl RecursionError"
    by (simp add: get_running_vms_def glob_json_def endswith_def garbled_registry_def
        quiet_world_def vm_record_def scan.simps visit_eq world_simps)
  from a b c d e show ?thesis by (intro conjI)
qed

text \<open>
  Claim C10. A file of the registry that parses to a dict whose \<open>pid\<close> is missing,
  \<^verbatim>\<open>None\<close>, zero or any other falsy value is removed by the loop body with no probe and
  nothing appended; when the enumeration returns, the file is gone, its record is not in
  the result, and result and final world (probes sent, calls counted, files left) are
  those of the enumeration of the registry without that file.
\<close>

theorem falsy_pid_entry_reclaimed:
  assumes "distinct (map fst (run_dir w))" and "f \<in> set (glob_json w)"
    and "map_of (run_dir w) f = Some (Parsed info)" and "py_get info ''pid'' = Inr pid"
    and "\<not> truthy pid" and "get_running_vms w = (Inr vms, w')"
  shows "visit f w = (Inr None, unlink f w) \<and> trace (unlink f w) = trace w \<and>
         map_of (run_dir w') f = None \<and> info \<notin> set vms \<and>
         get_running_vms (unlink f w) = (Inr vms, w')"
proof -
  from assms(3,4,5) have v: "visit f w = (Inr None, unlink f w)"
    by (simp add: visit_eq)
  from assms(6) have s: "scan (glob_json w) [] w = (Inr vms, w')"
    by (simp add: get_running_vms_scan)
  from assms(1) have d: "distinct (glob_json w)" by (rule distinct_glob_json)
  from scan_skip_falsy [OF assms(3,4,5,2) d s]
  have e: "get_running_vms (unlink f w) = (Inr vms, w')"
    by (simp add: get_running_vms_scan glob_json_unlink)
  from scan_entry [OF s assms(2,3)] assms(4,5)
  have gone: "map_of (run_dir w') f = None"
    by (auto simp: confirmed_alive_def)
  have "info \<notin> set vms"
  proof
    assume "info \<in> set vms"
    with scan_result [OF d s] obtain g where g: "g \<in> set (glob_json w)"
      "map_of (run_dir w') g = Some (Parsed info)"
      by (auto simp: survivors_member)
    with scan_submap [OF s, of g] have "map_of (run_dir w) g = Some (Parsed info)" by auto
    from scan_entry [OF s g(1) this] g(2) have "confirmed_alive info w w'" by simp
    with assms(4,5) show False by (simp add: confirmed_alive_def)
  qed
  with v e gone show ?thesis by simp
qed

text \<open>C10 on the mixed registry: the records without pid, with pid null and with pid
  zero.\<close>

theorem falsy_pid_entry_reclaimed_witness:
  "map_of (run_dir (snd (get_running_vms mixed_registry))) ''nopid.json'' = None \<and>
   map_of (run_dir (snd (get_running_vms mixed_registry))) ''null.json'' = None \<and>
   map_of (run_dir (snd (get_running_vms mixed_registry))) ''zero.json'' = None \<and>
   get_running_vms (unlink ''nopid.json'' mixed_registry) = get_running_vms mixed_registry \<and>
   get_running_vms (unlink ''null.json'' mixed_registry) = get_running_vms mixed_registry \<and>
   get_running_vms (unlink ''zero.json'' mixed_registry) = get_running_vms mixed_registry \<and>
   trace (snd (get_running_vms mixed_registry)) = [Kill 100 SIG0 Alive, Kill 200 SIG0 Gone]"
proof -
  have d: "distinct (map fst (run_dir mixed_registry))"
    by (simp add: mixed_registry_def quiet_world_def)
  have g: "''nopid.json'' \<in> set (glob_json mixed_registry)"
    "''null.json'' \<in> set (glob_json mixed_registry)"
    "''zero.json'' \<in> set (glob_json mixed_registry)"
    by (simp_all add: glob_json_def endswith_def mixed_registry_def quiet_world_def)
  have m: "map_of (run_dir mixed_registry) ''nopid.json'' = Some (Parsed (JObject [(''name'', JStr ''nopid'')]))"
    "map_of (run_dir mixed_registry) ''null.json''
       = Some (Parsed (JObject [(''name'', JStr ''null''), (''pid'', JNull)]))"
    "map_of (run_dir mixed_registry) ''zero.json''
       = Some (Parsed (JObject [(''name'', JStr ''zero''), (''pid'', JInt 0)]))"
    by (simp_all add: mixed_registry_def quiet_world_def)
  have p: "py_get (JObject [(''name'', JStr ''nopid'')]) ''pid'' = Inr JNull"
    "py_get (JObject [(''name'', JStr ''null''), (''pid'', JNull)]) ''pid'' = Inr JNull"
    "py_get (JObject [(''name'', JStr ''zero''), (''pid'', JInt 0)]) ''pid'' = Inr (JInt 0)"
    by simp_all
  have t: "\<not> truthy JNull" "\<not> truthy (JInt 0)" by simp_all
  from falsy_pid_entry_reclaimed [OF d g(1) m(1) p(1) t(1) mixed_registry_run]
    falsy_pid_entry_reclaimed [OF d g(2) m(2) p(2) t(1) mixed_registry_run]
    falsy_pid_entry_reclaimed [OF d g(3) m(3) p(3) t(2) mixed_registry_run]
  show ?thesis
    by (simp add: mixed_registry_run)
qed

subsection \<open>Stopping\<close>


lemma upt_Suc_shift: "[0..<Suc k] = 0 # map Suc [0..<k]"
  by (simp add: upt_conv_Cons map_Suc_upt del: upt_Suc)

lemma takeWhile_upt_alive:
  "P 0 \<Longrightarrow> length (takeWhile P [0..<Suc k]) = Suc (length (takeWhile (\<lambda>i. P (Suc i)) [0..<k]))"
  by (simp add: upt_Suc_shift takeWhile_map comp_def del: upt_Suc)

lemma takeWhile_upt_dead: "\<not> P 0 \<Longrightarrow> length (takeWhile P [0..<Suc k]) = 0"
  by (simp add: upt_Suc_shift del: upt_Suc)

lemma concat_map_upt_shift:
  "concat (map f [0..<Suc m]) = f 0 @ concat (map (\<lambda>i. f (Suc i)) [0..<m])"
  by (simp add: upt_Suc_shift comp_def del: upt_Suc)

lemma takeWhile_upt_le: "length (takeWhile P [0..<k]) \<le> k"
  using length_takeWhile_le [of P "[0..<k]"] by simp

lemma takeWhile_upt_all: "length (takeWhile P [0..<k]) = k \<longleftrightarrow> (\<forall>i<k. P i)"
proof
  assume "length (takeWhile P [0..<k]) = k"
  then have "takeWhile P [0..<k] = [0..<k]"
    by (metis length_upt diff_zero takeWhile_eq_take take_all order_refl)
  then show "\<forall>i<k. P i"
    by (metis atLeastLessThan_iff set_takeWhileD set_upt zero_le)
next
  assume "\<forall>i<k. P i"
  then have "takeWhile P [0..<k] = [0..<k]"
    by (auto simp: takeWhile_eq_all_conv)
  then show "length (takeWhile P [0..<k]) = k" by (simp only: length_upt diff_zero)
qed

text \<open>The wait loop in closed form: it polls until the first answer that is not "alive",
  at most \<open>k\<close> times.\<close>

lemma wait_loop_eq:
  assumes "as_pid pid = Inr n"
  shows "wait_loop k pid w =
     (let j = length (takeWhile (\<lambda>i. procs w (kills w + i) n = Alive) [0..<k]);
          m = min k (Suc j)
      in (Inr (j = k),
          w\<lparr>kills := kills w + m,
            trace := trace w @
              concat (map (\<lambda>i. [Sleep (1 / 2), Kill n SIG0 (procs w (kills w + i) n)]) [0..<m])\<rparr>))"
proof (induction k arbitrary: w)
  case 0
  show ?case by simp
next
  case (Suc k)
  let ?w1 = "emit (Sleep (1 / 2)) w"
  let ?w2 = "probed n ?w1"
  let ?P = "\<lambda>i. procs w (kills w + i) n = Alive"
  have f: "kills ?w2 = Suc (kills w)" "procs ?w2 = procs w"
    "trace ?w2 = trace w @ [Sleep (1 / 2), Kill n SIG0 (procs w (kills w) n)]"
    by (simp_all add: probed_def emit_def)
  have step: "wait_loop (Suc k) pid w =
      (if procs w (kills w) n \<noteq> Alive then (Inr False, ?w2) else wait_loop k pid ?w2)"
    using assms by (simp add: is_process_running_eq Let_def emit_def probed_def)
  show ?case
  proof (cases "procs w (kills w) n = Alive")
    case False
    then have j: "length (takeWhile ?P [0..<Suc k]) = 0"
      by (intro takeWhile_upt_dead) simp
    have "?w2 = w\<lparr>kills := kills w + 1,
        trace := trace w @ [Sleep (1 / 2), Kill n SIG0 (procs w (kills w) n)]\<rparr>"
      by (simp add: probed_def emit_def)
    with False step show ?thesis
      unfolding Let_def j by simp
  next
    case True
    then have j: "length (takeWhile ?P [0..<Suc k])
        = Suc (length (takeWhile (\<lambda>i. ?P (Suc i)) [0..<k]))"
      by (intro takeWhile_upt_alive) simp
    let ?j' = "length (takeWhile (\<lambda>i. ?P (Suc i)) [0..<k])"
    let ?m' = "min k (Suc ?j')"
    from True step have "wait_loop (Suc k) pid w = wait_loop k pid ?w2" by simp
    also have "\<dots> = (Inr (?j' = k),
          ?w2\<lparr>kills := kills ?w2 + ?m',
            trace := trace ?w2 @
              concat (map (\<lambda>i. [Sleep (1 / 2), Kill n SIG0 (procs ?w2 (kills ?w2 + i) n)]) [0..<?m'])\<rparr>)"
      unfolding Suc.IH [of ?w2] Let_def f by simp
    also have "\<dots> = (Inr (Suc ?j' = Suc k),
          w\<lparr>kills := kills w + Suc ?m',
            trace := trace w @
              concat (map (\<lambda>i. [Sleep (1 / 2), Kill n SIG0 (procs w (kills w + i) n)]) [0..<Suc ?m'])\<rparr>)"
      unfolding f concat_map_upt_shift
      by (simp add: probed_def emit_def)
    finally show ?thesis
      unfolding Let_def j by (simp add: min_Suc_Suc del: upt_Suc)
  qed
qed


lemma os_kill_eq:
  assumes "as_pid pid = Inr n"
  shows "os_kill pid sig w =
     ((case procs w (kills w) n of Alive \<Rightarrow> Inr () | Gone \<Rightarrow> Inl ProcessLookupError
       | Denied \<Rightarrow> Inl PermissionError),
      w\<lparr>kills := Suc (kills w), trace := trace w @ [Kill n sig (procs w (kills w) n)]\<rparr>)"
  using assms by (simp add: os_kill_def emit_def Let_def split: proc.splits)

lemma trace_print [simp]: "trace (print m w) = trace w"
  by (simp add: print_def)

lemma trace_remove_vm_info [simp]: "trace (remove_vm_info s w) = trace w"
  by (simp add: remove_vm_info_def unlink_def Let_def)

lemma trace_remove_named: "trace (snd (remove_named name w)) = trace w"
  by (simp add: remove_named_def split: sum.splits)

text \<open>Whatever the outcome of the signals, \<^verbatim>\<open>stop_vm\<close> makes no further system call.\<close>

lemma py_format_Inl: "py_format v = Inl e \<Longrightarrow> e = Unmodelled"
  by (cases v) auto

lemma stop_vm_trace:
  "trace (snd (stop_vm name pid force w)) =
     trace (snd (send_signals pid force (print (Stopping name pid) w)))"
proof (cases "py_format name")
  case (Inl e)
  then have e: "e = Unmodelled" by (rule py_format_Inl)
  with Inl show ?thesis
    by (auto simp: stop_vm_def Let_def remove_named_def split: sum.splits prod.splits)
next
  case (Inr s)
  then show ?thesis
    by (auto simp: stop_vm_def Let_def remove_named_def split: sum.splits prod.splits)
qed

text \<open>The signals of a graceful stop of a pid that takes the termination request, and of
  a forced stop, in closed form.\<close>

lemma os_kill_trace:
  assumes "as_pid pid = Inr n"
  shows "trace (snd (os_kill pid sig w)) = trace w @ [Kill n sig (procs w (kills w) n)]"
  using assms by (simp add: os_kill_eq)

lemma send_signals_graceful:
  assumes "as_pid pid = Inr n" and "procs w (kills w) n = Alive"
  shows "trace (snd (send_signals pid False w)) =
     trace w @ Kill n SIGTERM Alive #
       concat (map (\<lambda>i. [Sleep (1 / 2), Kill n SIG0 (procs w (kills w + 1 + i) n)])
         [0..<min 10 (Suc (length (takeWhile (\<lambda>i. procs w (kills w + 1 + i) n = Alive) [0..<10])))])
       @ (if length (takeWhile (\<lambda>i. procs w (kills w + 1 + i) n = Alive) [0..<10]) = 10
          then [Kill n SIGKILL (procs w (kills w + 11) n)] else [])"
proof -
  define j where "j = length (takeWhile (\<lambda>i. procs w (kills w + 1 + i) n = Alive) [0..<10])"
  define evs where "evs = concat (map (\<lambda>i. [Sleep (1 / 2), Kill n SIG0 (procs w (kills w + 1 + i) n)])
         [0..<min 10 (Suc j)])"
  define w1 where "w1 = w\<lparr>kills := Suc (kills w), trace := trace w @ [Kill n SIGTERM Alive]\<rparr>"
  define w2 where "w2 = w1\<lparr>kills := kills w1 + min 10 (Suc j), trace := trace w1 @ evs\<rparr>"
  have f1: "kills w1 = kills w + 1" "procs w1 = procs w" "trace w1 = trace w @ [Kill n SIGTERM Alive]"
    by (simp_all add: w1_def)
  have k: "os_kill pid SIGTERM w = (Inr (), w1)"
    using assms by (simp add: os_kill_eq w1_def)
  have l: "wait_loop 10 pid w1 = (Inr (j = 10), w2)"
    unfolding wait_loop_eq [OF assms(1)] Let_def f1 j_def [symmetric] evs_def [symmetric] w2_def
    by (simp only: f1)
  have s: "send_signals pid False w =
      (if j = 10 then os_kill pid SIGKILL (print Escalating w2) else (Inr (), w2))"
    by (simp only: send_signals_def k l if_False prod.case sum.case)
  have f2: "trace w2 = trace w @ Kill n SIGTERM Alive # evs" "procs w2 = procs w"
    "kills w2 = kills w + 1 + min 10 (Suc j)"
    by (simp_all add: w2_def f1)
  show ?thesis
  proof (cases "j = 10")
    case True
    then have "kills (print Escalating w2) = kills w + 11"
      by (simp add: print_def f2)
    moreover have "procs (print Escalating w2) = procs w" "trace (print Escalating w2) = trace w2"
      by (simp_all add: print_def f2)
    moreover from True have "send_signals pid False w = os_kill pid SIGKILL (print Escalating w2)"
      by (simp add: s)
    ultimately have "trace (snd (send_signals pid False w)) =
        trace w2 @ [Kill n SIGKILL (procs w (kills w + 11) n)]"
      by (simp add: os_kill_trace [OF assms(1)])
    with True show ?thesis
      unfolding j_def [symmetric] evs_def [symmetric] by (simp only: f2 if_True) simp
  next
    case False
    then have "trace (snd (send_signals pid False w)) = trace w2"
      by (simp only: s if_False snd_conv)
    with False show ?thesis
      unfolding j_def [symmetric] evs_def [symmetric] by (simp only: f2 if_False) simp
  qed
qed

lemma send_signals_forced:
  assumes "as_pid pid = Inr n"
  shows "trace (snd (send_signals pid True w)) = trace w @ [Kill n SIGKILL (procs w (kills w) n)]"
  using assms by (simp add: send_signals_def os_kill_eq)



text \<open>
  Claim C2. A graceful stop of a pid that takes the termination request makes these
  system calls and no other: SIGTERM first; then polls, each a sleep of 0.5 followed by
  a liveness probe, until a probe is not answered "alive", ten polls at most; then
  SIGKILL if and only if all ten probes were answered "alive", as the last call, after
  the ten sleeps. A forced stop makes one call, SIGKILL.
\<close>

theorem stop_vm_escalation:
  assumes "as_pid pid = Inr n"
  shows "(procs w (kills w) n = Alive \<longrightarrow>
           new_events w (snd (stop_vm name pid False w)) =
             Kill n SIGTERM Alive #
             concat (map (\<lambda>i. [Sleep (1 / 2), Kill n SIG0 (poll_answer w n i)])
               [0..<polls_made w n]) @
             (if \<forall>i<10. poll_answer w n i = Alive
              then [Kill n SIGKILL (procs w (kills w + 11) n)] else []) \<and>
           polls_made w n \<le> 10 \<and>
           ((\<forall>i<10. poll_answer w n i = Alive) \<longrightarrow> polls_made w n = 10) \<and>
           ((\<exists>a. Kill n SIGKILL a \<in> set (new_events w (snd (stop_vm name pid False w))))
              \<longleftrightarrow> (\<forall>i<10. poll_answer w n i = Alive))) \<and>
         new_events w (snd (stop_vm name pid True w)) = [Kill n SIGKILL (procs w (kills w) n)]"
proof -
  let ?j = "length (takeWhile (\<lambda>i. poll_answer w n i = Alive) [0..<10])"
  have all: "?j = 10 \<longleftrightarrow> (\<forall>i<10. poll_answer w n i = Alive)"
    by (rule takeWhile_upt_all)
  have forced: "new_events w (snd (stop_vm name pid True w)) = [Kill n SIGKILL (procs w (kills w) n)]"
    using send_signals_forced [OF assms, of "print (Stopping name pid) w"]
    by (simp add: stop_vm_trace new_events_def print_def)
  have le: "polls_made w n \<le> 10"
    by (simp add: polls_made_def)
  have ten: "polls_made w n = 10" if "\<forall>i<10. poll_answer w n i = Alive"
    using that all by (simp add: polls_made_def)
  have graceful: "new_events w (snd (stop_vm name pid False w)) =
             Kill n SIGTERM Alive #
             concat (map (\<lambda>i. [Sleep (1 / 2), Kill n SIG0 (poll_answer w n i)])
               [0..<polls_made w n]) @
             (if \<forall>i<10. poll_answer w n i = Alive
              then [Kill n SIGKILL (procs w (kills w + 11) n)] else [])"
    if live: "procs w (kills w) n = Alive"
  proof -
    let ?w0 = "print (Stopping name pid) w"
    have f: "procs ?w0 = procs w" "kills ?w0 = kills w" "trace ?w0 = trace w"
      by (simp_all add: print_def)
    from live have "procs ?w0 (kills ?w0) n = Alive" by (simp add: f)
    from send_signals_graceful [OF assms this]
    show ?thesis
      unfolding stop_vm_trace f new_events_def polls_made_def poll_answer_def all [unfolded poll_answer_def, symmetric]
      by simp
  qed
  have iff: "(\<exists>a. Kill n SIGKILL a \<in> set (new_events w (snd (stop_vm name pid False w))))
              \<longleftrightarrow> (\<forall>i<10. poll_answer w n i = Alive)"
    if live: "procs w (kills w) n = Alive"
    unfolding graceful [OF live] by auto
  from forced le ten graceful iff show ?thesis by blast
qed

lemma cooperating_polls:
  "polls_made cooperating_world 100 = 3"
  "\<not> (\<forall>i<10. poll_answer cooperating_world 100 i = Alive)"
proof -
  have a: "poll_answer cooperating_world 100 i = (if i < 2 then Alive else Gone)" for i
    by (simp add: poll_answer_def cooperating_world_def quiet_world_def)
  have "[0..<10] = [0, 1, 2, 3, 4, 5, 6, 7, 8, 9::nat]"
    by (simp add: upt_rec)
  then show "polls_made cooperating_world 100 = 3"
    by (simp add: polls_made_def a)
  from a [of 2] show "\<not> (\<forall>i<10. poll_answer cooperating_world 100 i = Alive)"
    by (auto intro!: exI [of _ 2])
qed

text \<open>C2 on a process that is gone at the third poll: three polls and no SIGKILL; on
  the same process stopped with force; and on a process that never goes away: ten polls,
  then SIGKILL.\<close>

theorem stop_vm_escalation_witness:
  "as_pid (JInt 100) = Inr 100 \<and>
   procs cooperating_world (kills cooperating_world) 100 = Alive \<and>
   new_events cooperating_world (snd (stop_vm (JStr ''alpha'') (JInt 100) False cooperating_world)) =
     [Kill 100 SIGTERM Alive, Sleep (1 / 2), Kill 100 SIG0 Alive, Sleep (1 / 2),
      Kill 100 SIG0 Alive, Sleep (1 / 2), Kill 100 SIG0 Gone] \<and>
   new_events cooperating_world (snd (stop_vm (JStr ''alpha'') (JInt 100) True cooperating_world)) =
     [Kill 100 SIGKILL Alive] \<and>
   procs stubborn_world (kills stubborn_world) 100 = Alive \<and>
   new_events stubborn_world (snd (stop_vm (JStr ''alpha'') (JInt 100) False stubborn_world)) =
     [Kill 100 SIGTERM Alive,
      Sleep (1 / 2), Kill 100 SIG0 Alive, Sleep (1 / 2), Kill 100 SIG0 Alive,
      Sleep (1 / 2), Kill 100 SIG0 Alive, Sleep (1 / 2), Kill 100 SIG0 Alive,
      Sleep (1 / 2), Kill 100 SIG0 Alive, Sleep (1 / 2), Kill 100 SIG0 Alive,
      Sleep (1 / 2), Kill 100 SIG0 Alive, Sleep (1 / 2), Kill 100 SIG0 Alive,
      Sleep (1 / 2), Kill 100 SIG0 Alive, Sleep (1 / 2), Kill 100 SIG0 Alive,
      Kill 100 SIGKILL Alive]"
proof -
  have p: "as_pid (JInt 100) = Inr 100" by simp
  have l: "procs cooperating_world (kills cooperating_world) 100 = Alive"
    by (simp add: cooperating_world_def quiet_world_def)
  have a: "poll_answer cooperating_world 100 i = (if i < 2 then Alive else Gone)" for i
    by (simp add: poll_answer_def cooperating_world_def quiet_world_def)
  have u: "[0..<3] = [0, 1, 2::nat]"
    by (simp add: upt_rec)
  from stop_vm_escalation [OF p, of cooperating_world "JStr ''alpha''"] l
  have c: "new_events cooperating_world (snd (stop_vm (JStr ''alpha'') (JInt 100) False cooperating_world)) =
     [Kill 100 SIGTERM Alive, Sleep (1 / 2), Kill 100 SIG0 Alive, Sleep (1 / 2),
      Kill 100 SIG0 Alive, Sleep (1 / 2), Kill 100 SIG0 Gone]"
    "new_events cooperating_world (snd (stop_vm (JStr ''alpha'') (JInt 100) True cooperating_world)) =
     [Kill 100 SIGKILL Alive]"
    by (simp_all add: cooperating_polls u a)
  have ls: "procs stubborn_world (kills stubborn_world) 100 = Alive"
    "procs stubborn_world (kills stubborn_world + 11) 100 = Alive"
    by (simp_all add: stubborn_world_def quiet_world_def)
  have as: "poll_answer stubborn_world 100 i = Alive" for i
    by (simp add: poll_answer_def stubborn_world_def quiet_world_def)
  have "length (takeWhile (\<lambda>i. poll_answer stubborn_world 100 i = Alive) [0..<10]) = 10"
    unfolding takeWhile_upt_all by (simp add: as)
  then have ps: "polls_made stubborn_world 100 = 10"
    by (simp only: polls_made_def)
  have u10: "[0..<10] = [0, 1, 2, 3, 4, 5, 6, 7, 8, 9::nat]"
    by (simp add: upt_rec)
  from stop_vm_escalation [OF p, of stubborn_world "JStr ''alpha''"] ls
  have s: "new_events stubborn_world (snd (stop_vm (JStr ''alpha'') (JInt 100) False stubborn_world)) =
     [Kill 100 SIGTERM Alive,
      Sleep (1 / 2), Kill 100 SIG0 Alive, Sleep (1 / 2), Kill 100 SIG0 Alive,
      Sleep (1 / 2), Kill 100 SIG0 Alive, Sleep (1 / 2), Kill 100 SIG0 Alive,
      Sleep (1 / 2), Kill 100 SIG0 Alive, Sleep (1 / 2), Kill 100 SIG0 Alive,
      Sleep (1 / 2), Kill 100 SIG0 Alive, Sleep (1 / 2), Kill 100 SIG0 Alive,
      Sleep (1 / 2), Kill 100 SIG0 Alive, Sleep (1 / 2), Kill 100 SIG0 Alive,
      Kill 100 SIGKILL Alive]"
    by (simp add: ps as u10)
  from p l c ls(1) s show ?thesis by simp
qed



lemmas int_eval = py_int_def signed_int_def unsigned_int_def digit_val_def strip_def lstrip_def
  trim_def is_space_def is_c_space_def

lemmas registry_eval = get_running_vms_def glob_json_def endswith_def scan.simps visit_eq world_simps

lemma foreign_enum: "get_running_vms foreign_world =
    (Inr [], foreign_world\<lparr>run_dir := [], kills := 1, trace := [Kill 1 SIG0 Denied]\<rparr>)"
  by (simp add: registry_eval foreign_world_def quiet_world_def vm_record_def)

text \<open>
  Claim C6, at the failing input. The record of \<open>alpha\<close> names a process the caller may
  not signal. \<^verbatim>\<open>vmctl stop alpha\<close> returns 1, but by way of "not found": the enumeration
  at its start takes \<^verbatim>\<open>PermissionError\<close> for "not running" and deletes the record, and no
  stop signal is ever sent. \<^verbatim>\<open>stop_vm\<close> called on the same record returns 1 and keeps it.
\<close>

theorem stop_unsignalable_loses_record:
  "cmd_stop (stop_args ''alpha'') foreign_world =
     (Inr 1, foreign_world\<lparr>run_dir := [], kills := 1, trace := [Kill 1 SIG0 Denied],
                stdout := [ErrNotFound ''alpha'', HintList]\<rparr>) \<and>
   file_exists ''alpha.json'' foreign_world \<and>
   \<not> file_exists ''alpha.json'' (snd (cmd_stop (stop_args ''alpha'') foreign_world)) \<and>
   stop_vm (JStr ''alpha'') (JInt 1) False foreign_world =
     (Inr 1, foreign_world\<lparr>kills := 1, trace := [Kill 1 SIGTERM Denied],
                stdout := [Stopping (JStr ''alpha'') (JInt 1), ErrNoPermission (JInt 1)]\<rparr>)"
proof -
  have a: "cmd_stop (stop_args ''alpha'') foreign_world =
     (Inr 1, foreign_world\<lparr>run_dir := [], kills := 1, trace := [Kill 1 SIG0 Denied],
                stdout := [ErrNotFound ''alpha'', HintList]\<rparr>)"
    by (simp add: cmd_stop_def foreign_enum stop_args_def find_by_pid_def int_eval print_def)
       (simp add: foreign_world_def quiet_world_def)
  have b: "file_exists ''alpha.json'' foreign_world"
    by (simp add: file_exists_def foreign_world_def quiet_world_def)
  have c: "stop_vm (JStr ''alpha'') (JInt 1) False foreign_world =
     (Inr 1, foreign_world\<lparr>kills := 1, trace := [Kill 1 SIGTERM Denied],
                stdout := [Stopping (JStr ''alpha'') (JInt 1), ErrNoPermission (JInt 1)]\<rparr>)"
    by (simp add: stop_vm_def send_signals_def os_kill_def print_def emit_def Let_def
        foreign_world_def quiet_world_def)
  from a b c show ?thesis
    by (simp add: file_exists_def)
qed



lemma find_vm_none:
  "\<forall>vm \<in> set vms. \<exists>v. py_getitem vm key = Inr v \<and> \<not> P v \<Longrightarrow> find_vm key P vms = Inr None"
  by (induction vms) auto

lemma find_vm_Some:
  "find_vm key P vms = Inr (Some vm) \<Longrightarrow> vm \<in> set vms \<and> (\<exists>v. py_getitem vm key = Inr v \<and> P v)"
  by (induction vms) (auto split: sum.splits if_splits)

lemma find_by_pid_none:
  assumes "\<forall>vm \<in> set vms. \<exists>p. py_getitem vm ''pid'' = Inr p \<and> (\<forall>q. py_int s = Inr q \<longrightarrow> \<not> eq_int q p)"
  shows "find_by_pid s vms = Inr None"
proof (cases "py_int s")
  case (Inl e)
  with py_int_Inl [OF Inl] show ?thesis by (simp add: find_by_pid_def)
next
  case (Inr q)
  with assms have "\<forall>vm \<in> set vms. \<exists>v. py_getitem vm ''pid'' = Inr v \<and> \<not> eq_int q v"
    by auto
  then have "find_vm ''pid'' (eq_int q) vms = Inr None" by (rule find_vm_none)
  with Inr show ?thesis by (simp add: find_by_pid_def)
qed

lemma remove_vm_info_gone: "\<not> file_exists (s @ ''.json'') (remove_vm_info s w)"
  by (simp add: remove_vm_info_def file_exists_def unlink_def Let_def map_of_delete_same)

lemma file_exists_print [simp]: "file_exists f (print m w) = file_exists f w"
  by (simp add: file_exists_def print_def)

text \<open>A stop whose first signal finds no process.\<close>

lemma stop_vm_gone:
  assumes "as_pid p = Inr n" and "procs w (kills w) n = Gone"
  shows "stop_vm (JStr s) p force w =
     (Inr 0, print (AlreadyGone (JStr s))
        (remove_vm_info s
          ((print (Stopping (JStr s) p) w)
             \<lparr>kills := Suc (kills w),
              trace := trace w @ [Kill n (if force then SIGKILL else SIGTERM) Gone]\<rparr>)))"
proof -
  let ?w0 = "print (Stopping (JStr s) p) w"
  have f: "procs ?w0 = procs w" "kills ?w0 = kills w" "trace ?w0 = trace w"
    by (simp_all add: print_def)
  have "send_signals p force ?w0 =
      (Inl ProcessLookupError,
       ?w0\<lparr>kills := Suc (kills w),
           trace := trace w @ [Kill n (if force then SIGKILL else SIGTERM) Gone]\<rparr>)"
    using assms by (simp add: send_signals_def os_kill_eq f)
  then show ?thesis
    by (simp add: stop_vm_def Let_def remove_named_def)
qed

text \<open>
  Claim C3, as amended. A stop that names a target returns 1, with the "not found"
  message and no signal sent, when no record the enumeration found alive has that name
  or that pid: the name never existed, or its process died before the enumeration, which
  deleted the record. It returns 0, and the record is gone, when the target was found
  alive and its process is gone when the signal is sent.
\<close>

theorem stop_of_target_not_live:
  assumes "get_running_vms w = (Inr vms, w1)" and "\<not> arg_all args"
    and "arg_name args = Some s" and "s \<noteq> []"
  shows "((\<forall>vm \<in> set vms. \<exists>nm p. py_getitem vm ''name'' = Inr nm \<and> nm \<noteq> JStr s \<and>
             py_getitem vm ''pid'' = Inr p \<and> (\<forall>q. py_int s = Inr q \<longrightarrow> \<not> eq_int q p))
          \<longrightarrow> cmd_stop args w = (Inr 1, print HintList (print (ErrNotFound s) w1)) \<and>
              new_events w1 (snd (cmd_stop args w)) = []) \<and>
         (\<forall>vm p n. find_vm ''name'' (eq_str s) vms = Inr (Some vm) \<and>
             py_getitem vm ''pid'' = Inr p \<and> as_pid p = Inr n \<and> procs w1 (kills w1) n = Gone
          \<longrightarrow> fst (cmd_stop args w) = Inr 0 \<and>
              \<not> file_exists (s @ ''.json'') (snd (cmd_stop args w)) \<and>
              new_events w1 (snd (cmd_stop args w)) =
                [Kill n (if arg_force args then SIGKILL else SIGTERM) Gone])"
proof (intro conjI impI allI)
  assume a: "\<forall>vm \<in> set vms. \<exists>nm p. py_getitem vm ''name'' = Inr nm \<and> nm \<noteq> JStr s \<and>
             py_getitem vm ''pid'' = Inr p \<and> (\<forall>q. py_int s = Inr q \<longrightarrow> \<not> eq_int q p)"
  then have "\<forall>vm \<in> set vms. \<exists>v. py_getitem vm ''name'' = Inr v \<and> \<not> eq_str s v"
    by (fastforce simp: eq_str_def)
  then have n: "find_vm ''name'' (eq_str s) vms = Inr None" by (rule find_vm_none)
  from a have "\<forall>vm \<in> set vms. \<exists>p. py_getitem vm ''pid'' = Inr p \<and> (\<forall>q. py_int s = Inr q \<longrightarrow> \<not> eq_int q p)"
    by fastforce
  then have p: "find_by_pid s vms = Inr None" by (rule find_by_pid_none)
  from assms n p show r: "cmd_stop args w = (Inr 1, print HintList (print (ErrNotFound s) w1))"
    by (simp add: cmd_stop_def)
  show "new_events w1 (snd (cmd_stop args w)) = []"
    by (simp add: r new_events_def)
next
  fix vm p n
  assume b: "find_vm ''name'' (eq_str s) vms = Inr (Some vm) \<and>
             py_getitem vm ''pid'' = Inr p \<and> as_pid p = Inr n \<and> procs w1 (kills w1) n = Gone"
  then have nm: "py_getitem vm ''name'' = Inr (JStr s)"
    by (auto dest!: find_vm_Some simp: eq_str_def)
  from b have g: "as_pid p = Inr n" "procs w1 (kills w1) n = Gone" by simp_all
  from assms b nm have c: "cmd_stop args w = stop_vm (JStr s) p (arg_force args) w1"
    by (simp add: cmd_stop_def)
  show "fst (cmd_stop args w) = Inr 0"
    by (simp add: c stop_vm_gone [OF g])
  show "\<not> file_exists (s @ ''.json'') (snd (cmd_stop args w))"
    by (simp add: c stop_vm_gone [OF g] remove_vm_info_gone)
  show "new_events w1 (snd (cmd_stop args w)) =
                [Kill n (if arg_force args then SIGKILL else SIGTERM) Gone]"
    by (simp add: c stop_vm_gone [OF g] new_events_def print_def)
qed

lemma stubborn_enum: "get_running_vms stubborn_world =
    (Inr [vm_record ''alpha'' 100],
     stubborn_world\<lparr>kills := 1, trace := [Kill 100 SIG0 Alive]\<rparr>)"
  by (simp add: registry_eval stubborn_world_def quiet_world_def vm_record_def)

lemma race_enum: "get_running_vms race_world =
    (Inr [vm_record ''alpha'' 100],
     race_world\<lparr>kills := 1, trace := [Kill 100 SIG0 Alive]\<rparr>)"
  by (simp add: registry_eval race_world_def quiet_world_def vm_record_def)

lemma dead_enum: "get_running_vms dead_world =
    (Inr [], dead_world\<lparr>run_dir := [], kills := 1, trace := [Kill 100 SIG0 Gone]\<rparr>)"
  by (simp add: registry_eval dead_world_def quiet_world_def vm_record_def)

lemma quiet_enum: "get_running_vms quiet_world = (Inr [], quiet_world)"
  by (simp add: registry_eval quiet_world_def)

text \<open>C3 as amended, on a stop of \<open>ghost\<close> while only \<open>alpha\<close> runs, and on a stop of
  \<open>alpha\<close> whose process goes away between the enumeration and the signal.\<close>

theorem stop_of_target_not_live_witness:
  "fst (get_running_vms stubborn_world) = Inr [vm_record ''alpha'' 100] \<and>
   fst (cmd_stop (stop_args ''ghost'') stubborn_world) = Inr 1 \<and>
   trace (snd (cmd_stop (stop_args ''ghost'') stubborn_world)) = [Kill 100 SIG0 Alive] \<and>
   fst (get_running_vms race_world) = Inr [vm_record ''alpha'' 100] \<and>
   fst (cmd_stop (stop_args ''alpha'') race_world) = Inr 0 \<and>
   \<not> file_exists ''alpha.json'' (snd (cmd_stop (stop_args ''alpha'') race_world)) \<and>
   trace (snd (cmd_stop (stop_args ''alpha'') race_world)) = [Kill 100 SIG0 Alive, Kill 100 SIGTERM Gone]"
proof -
  have args: "\<not> arg_all (stop_args ''ghost'')" "arg_name (stop_args ''ghost'') = Some ''ghost''"
    "\<not> arg_all (stop_args ''alpha'')" "arg_name (stop_args ''alpha'') = Some ''alpha''"
    "\<not> arg_force (stop_args ''alpha'')" "''ghost'' \<noteq> []" "''alpha'' \<noteq> []"
    by (simp_all add: stop_args_def)
  have i: "py_int ''ghost'' = Inl ValueError"
    by (simp add: int_eval)
  have a: "\<forall>vm \<in> set [vm_record ''alpha'' 100]. \<exists>nm p. py_getitem vm ''name'' = Inr nm \<and>
      nm \<noteq> JStr ''ghost'' \<and> py_getitem vm ''pid'' = Inr p \<and>
      (\<forall>q. py_int ''ghost'' = Inr q \<longrightarrow> \<not> eq_int q p)"
    by (simp add: vm_record_def i)
  have b: "find_vm ''name'' (eq_str ''alpha'') [vm_record ''alpha'' 100] = Inr (Some (vm_record ''alpha'' 100))"
    "py_getitem (vm_record ''alpha'' 100) ''pid'' = Inr (JInt 100)" "as_pid (JInt 100) = Inr 100"
    "procs (stubborn_world\<lparr>kills := 1, trace := [Kill 100 SIG0 Alive]\<rparr>) 1 100 = Alive"
    "procs (race_world\<lparr>kills := 1, trace := [Kill 100 SIG0 Alive]\<rparr>) 1 100 = Gone"
    by (simp_all add: vm_record_def eq_str_def stubborn_world_def race_world_def quiet_world_def)
  from stop_of_target_not_live [OF stubborn_enum args(1,2,6)] a
  have g: "fst (cmd_stop (stop_args ''ghost'') stubborn_world) = Inr 1"
    "trace (snd (cmd_stop (stop_args ''ghost'') stubborn_world)) = [Kill 100 SIG0 Alive]"
    by (simp_all add: print_def)
  from stop_of_target_not_live [OF race_enum args(3,4,7)] b args(5)
  have r: "fst (cmd_stop (stop_args ''alpha'') race_world) = Inr 0"
    "\<not> file_exists ''alpha.json'' (snd (cmd_stop (stop_args ''alpha'') race_world))"
    "new_events (race_world\<lparr>kills := 1, trace := [Kill 100 SIG0 Alive]\<rparr>)
       (snd (cmd_stop (stop_args ''alpha'') race_world)) = [Kill 100 SIGTERM Gone]"
    by simp_all
  have "trace (snd (cmd_stop (stop_args ''alpha'') race_world)) =
      [Kill 100 SIG0 Alive, Kill 100 SIGTERM Gone]"
    using stop_of_target_not_live [OF race_enum args(3,4,7)] b args(5)
    by (simp add: cmd_stop_def race_enum stop_args_def vm_record_def eq_str_def
        stop_vm_gone print_def remove_vm_info_def unlink_def Let_def)
  with g r show ?thesis
    by (simp add: stubborn_enum race_enum)
qed

text \<open>
  Claim C3 as stated fails: \<^verbatim>\<open>vmctl stop ghost\<close> on an empty registry returns 1, and so
  does \<^verbatim>\<open>vmctl stop alpha\<close> when the process of \<open>alpha\<close> has died (its record is deleted
  by the enumeration and the name is then not found).
\<close>

theorem stop_of_absent_target_fails:
  "fst (cmd_stop (stop_args ''ghost'') quiet_world) = Inr 1 \<and>
   fst (cmd_stop (stop_args ''alpha'') dead_world) = Inr 1 \<and>
   stdout (snd (cmd_stop (stop_args ''alpha'') dead_world)) = [ErrNotFound ''alpha'', HintList]"
  by (simp add: cmd_stop_def quiet_enum dead_enum stop_args_def find_by_pid_def int_eval print_def)
     (simp add: dead_world_def quiet_world_def)

subsection \<open>Starting\<close>


lemma parse_memory_2G: "parse_memory ''2G'' = Inr 2147483648"
  using parse_memory_G [of "''2''"] by (simp add: int_eval)

lemma get_running_vms_same_env: "get_running_vms w = (r, w1) \<Longrightarrow> same_env w w1"
  by (simp add: get_running_vms_scan scan_same_env)

lemma get_running_vms_trace: "get_running_vms w = (r, w1) \<Longrightarrow> \<exists>evs. trace w1 = trace w @ evs"
  by (simp add: get_running_vms_scan scan_trace)

lemma find_vm_first:
  assumes "\<forall>v \<in> set vms. \<exists>x. py_getitem v key = Inr x" and "\<exists>v \<in> set vms. \<exists>x. py_getitem v key = Inr x \<and> P x"
  shows "\<exists>vm. find_vm key P vms = Inr (Some vm)"
  using assms
proof (induction vms)
  case Nil
  then show ?case by simp
next
  case (Cons a vms)
  from Cons.prems(1) obtain x where x: "py_getitem a key = Inr x" by auto
  show ?case
  proof (cases "P x")
    case True
    with x show ?thesis by simp
  next
    case False
    with x Cons.prems have "\<forall>v \<in> set vms. \<exists>x. py_getitem v key = Inr x"
      "\<exists>v \<in> set vms. \<exists>x. py_getitem v key = Inr x \<and> P x"
      by auto
    from Cons.IH [OF this] x False show ?thesis by simp
  qed
qed

text \<open>
  Claim C5, at the failing input. The disk image exists and the helper binary does not:
  \<^verbatim>\<open>vmctl start --name alpha --disk a.raw\<close> returns 1 and spawns nothing, but the launch
  configuration \<^verbatim>\<open>alpha_config.json\<close> has been written to the run directory before the
  binary is looked for. With a missing disk image the same command returns 1 and writes
  nothing.
\<close>

theorem start_without_binary_leaves_file:
  "run_dir quiet_world = [] \<and>
   fst (cmd_start (start_args ''alpha'' ''a.raw'') (quiet_world\<lparr>path_exists := disk_only\<rparr>)) = Inr 1 \<and>
   run_dir (snd (cmd_start (start_args ''alpha'' ''a.raw'') (quiet_world\<lparr>path_exists := disk_only\<rparr>))) =
     [(''alpha_config.json'',
       Parsed (JObject [(''cpu'', JInt 2), (''memory'', JStr ''2G''),
                        (''memory_bytes'', JInt 2147483648), (''disk'', JStr ''/home/u/a.raw''),
                        (''seed'', JNull)]))] \<and>
   trace (snd (cmd_start (start_args ''alpha'' ''a.raw'') (quiet_world\<lparr>path_exists := disk_only\<rparr>))) = [] \<and>
   stdout (snd (cmd_start (start_args ''alpha'' ''a.raw'') (quiet_world\<lparr>path_exists := disk_only\<rparr>))) =
     [WarnSeedMissing ''seed.iso'', Starting ''alpha'', ShowDisk ''a.raw'', ShowCpu 2,
      ShowMemory ''2G'', ErrBinaryMissing ''./vmstart''] \<and>
   cmd_start (start_args ''alpha'' ''a.raw'') quiet_world =
     (Inr 1, quiet_world\<lparr>stdout := [ErrDiskMissing ''a.raw'', HintDisk]\<rparr>)"
proof -
  let ?w = "quiet_world\<lparr>path_exists := disk_only\<rparr>"
  have e: "get_running_vms ?w = (Inr [], ?w)"
    by (simp add: registry_eval quiet_world_def)
  have cf: "load_config ?w = DEFAULT_CONFIG" "load_config quiet_world = DEFAULT_CONFIG"
    by (simp_all add: load_config_def quiet_world_def)
  have s1: "cmd_start (start_args ''alpha'' ''a.raw'') ?w =
      prepare (start_args ''alpha'' ''a.raw'') DEFAULT_CONFIG ''alpha'' ?w"
    by (simp add: cmd_start_def e cf start_args_def)
  have s2: "prepare (start_args ''alpha'' ''a.raw'') DEFAULT_CONFIG ''alpha'' ?w =
      (Inr 1,
       ?w\<lparr>run_dir := [(''alpha_config.json'',
               Parsed (JObject [(''cpu'', JInt 2), (''memory'', JStr ''2G''),
                        (''memory_bytes'', JInt 2147483648), (''disk'', JStr ''/home/u/a.raw''),
                        (''seed'', JNull)]))],
           stdout := [WarnSeedMissing ''seed.iso'', Starting ''alpha'', ShowDisk ''a.raw'', ShowCpu 2,
      ShowMemory ''2G'', ErrBinaryMissing ''./vmstart'']\<rparr>)"
    by (simp add: start_args_def DEFAULT_CONFIG_def prepare_def launch_def parse_memory_2G
        vm_config_of_def Let_def world_simps disk_only_def quiet_world_def)
  note c = s1 [unfolded s2]
  have d1: "cmd_start (start_args ''alpha'' ''a.raw'') quiet_world =
      prepare (start_args ''alpha'' ''a.raw'') DEFAULT_CONFIG ''alpha'' quiet_world"
    by (simp add: cmd_start_def quiet_enum cf start_args_def)
  have d2: "prepare (start_args ''alpha'' ''a.raw'') DEFAULT_CONFIG ''alpha'' quiet_world =
     (Inr 1, quiet_world\<lparr>stdout := [ErrDiskMissing ''a.raw'', HintDisk]\<rparr>)"
    by (simp add: start_args_def DEFAULT_CONFIG_def prepare_def Let_def world_simps quiet_world_def)
  note d = d1 [unfolded d2]
  show ?thesis
    by (simp add: c d) (simp add: quiet_world_def)
qed



lemma cmd_start_reject:
  assumes "get_running_vms w = (Inr vms, w1)"
    and "find_vm ''name'' (eq_str (or_str (arg_name args) (''vm-'' @ str (now_unix w)))) vms = Inr (Some vm)"
    and "py_getitem vm ''pid'' = Inr p"
  shows "cmd_start args w =
     (Inr 1, print (ErrAlreadyRunning (or_str (arg_name args) (''vm-'' @ str (now_unix w))) p) w1)"
  using assms by (simp add: cmd_start_def Let_def)

lemma cmd_start_prepare:
  assumes "get_running_vms w = (Inr vms, w1)"
    and "find_vm ''name'' (eq_str (or_str (arg_name args) (''vm-'' @ str (now_unix w)))) vms = Inr None"
  shows "cmd_start args w =
     prepare args (load_config w) (or_str (arg_name args) (''vm-'' @ str (now_unix w))) w1"
  using assms by (simp add: cmd_start_def Let_def)

text \<open>A start whose preconditions hold, from the binary check on and from the disk
  check on.\<close>

lemma launch_success:
  assumes "path_exists w (or_str (arg_binary args) (vmstart_binary cfg))"
    and "path_exists w ''vmstart.entitlements'' \<longrightarrow> codesign_installed w"
    and "popen_result w = Inr pid"
  shows "fst (launch args cfg name disk vc env w) = Inr 0 \<and>
         Popen (or_str (arg_binary args) (vmstart_binary cfg)) env (\<not> arg_foreground args) pid
            \<in> set (new_events w (snd (launch args cfg name disk vc env w))) \<and>
         (\<not> arg_foreground args \<longrightarrow>
            map_of (run_dir (snd (launch args cfg name disk vc env w))) (name @ ''.json'') =
              Some (Parsed (JObject [(''name'', JStr name), (''pid'', JInt pid), (''disk'', JStr disk),
                          (''started_at'', JStr (now_iso w)), (''config'', vc)])))"
proof (cases "arg_foreground args")
  case True
  with assms show ?thesis
    by (cases "path_exists w ''vmstart.entitlements''")
       (simp_all add: launch_def run_foreground_def save_vm_info_def Let_def world_simps
          new_events_def)
next
  case False
  with assms show ?thesis
    by (cases "path_exists w ''vmstart.entitlements''")
       (simp_all add: launch_def run_background_def save_vm_info_def Let_def world_simps
          new_events_def update_conv')
qed

lemma prepare_success:
  assumes "path_exists w (or_str (arg_disk args) (default_disk cfg))"
    and "parse_memory (or_str (arg_memory args) (default_memory cfg)) = Inr mb"
    and "path_exists w (or_str (arg_binary args) (vmstart_binary cfg))"
    and "path_exists w ''vmstart.entitlements'' \<longrightarrow> codesign_installed w"
    and "popen_result w = Inr pid"
  shows "fst (prepare args cfg name w) = Inr 0 \<and>
         (\<exists>env. Popen (or_str (arg_binary args) (vmstart_binary cfg)) env (\<not> arg_foreground args) pid
            \<in> set (new_events w (snd (prepare args cfg name w)))) \<and>
         (\<not> arg_foreground args \<longrightarrow>
            (\<exists>info. map_of (run_dir (snd (prepare args cfg name w))) (name @ ''.json'') = Some (Parsed info) \<and>
               py_getitem info ''name'' = Inr (JStr name) \<and> py_getitem info ''pid'' = Inr (JInt pid)))"
proof -
  define disk where "disk = or_str (arg_disk args) (default_disk cfg)"
  define seed where "seed = or_str (arg_seed args) (seed_iso cfg)"
  define cpu where "cpu = or_int (arg_cpu args) (default_cpu cfg)"
  define memory where "memory = or_str (arg_memory args) (default_memory cfg)"
  define w1 where "w1 = (if \<not> path_exists w seed then print (WarnSeedMissing seed) w else w)"
  define vc where "vc = vm_config_of w1 cpu memory mb disk seed"
  define w3 where "w3 = write_file (name @ ''_config.json'') (Parsed vc)
      (ensure_dirs (print (ShowMemory memory) (print (ShowCpu cpu) (print (ShowDisk disk)
         (print (Starting name) w1)))))"
  define env where "env = launch_env w3 name cpu mb disk seed"
  have p: "prepare args cfg name w = launch args cfg name disk vc env w3"
    using assms(1,2)
    by (simp add: prepare_def Let_def disk_def seed_def cpu_def memory_def w1_def vc_def
        w3_def env_def)
  have f: "path_exists w3 = path_exists w" "codesign_installed w3 = codesign_installed w"
    "popen_result w3 = popen_result w" "trace w3 = trace w"
    by (simp_all add: w3_def w1_def world_simps)
  from assms(3,4,5) have h: "path_exists w3 (or_str (arg_binary args) (vmstart_binary cfg))"
    "path_exists w3 ''vmstart.entitlements'' \<longrightarrow> codesign_installed w3"
    "popen_result w3 = Inr pid"
    by (simp_all add: f)
  have n: "new_events w x = new_events w3 x" for x
    by (simp add: new_events_def f)
  from launch_success [OF h, of name disk vc env] show ?thesis
    unfolding p n by auto
qed

text \<open>
  Claim C4. Let the enumeration at the start of \<^verbatim>\<open>cmd_start\<close> return the live records
  (each with its name and pid). If one of them has the requested name, the command
  returns 1 with the "already running" message, and trace and run directory are those
  the enumeration left: nothing is spawned, nothing written. If none has it (as when the
  earlier process of that name has died and the enumeration has reclaimed its record)
  and the other preconditions hold (disk image, memory size, helper binary, code
  signing, \<^verbatim>\<open>Popen\<close>), the command returns 0, the helper is spawned, and in background
  mode the record \<^verbatim>\<open>NAME.json\<close> holds the name and the new pid.
\<close>

theorem start_name_uniqueness:
  assumes "get_running_vms w = (Inr vms, w1)"
    and "\<forall>v \<in> set vms. \<exists>x p. py_getitem v ''name'' = Inr x \<and> py_getitem v ''pid'' = Inr p"
    and "name = or_str (arg_name args) (''vm-'' @ str (now_unix w))"
    and "disk = or_str (arg_disk args) (default_disk (load_config w))"
    and "memory = or_str (arg_memory args) (default_memory (load_config w))"
    and "binary = or_str (arg_binary args) (vmstart_binary (load_config w))"
  shows "((\<exists>v \<in> set vms. py_getitem v ''name'' = Inr (JStr name)) \<longrightarrow>
            fst (cmd_start args w) = Inr 1 \<and>
            run_dir (snd (cmd_start args w)) = run_dir w1 \<and>
            trace (snd (cmd_start args w)) = trace w1 \<and>
            (\<exists>p. stdout (snd (cmd_start args w)) = stdout w1 @ [ErrAlreadyRunning name p])) \<and>
         ((\<forall>v \<in> set vms. py_getitem v ''name'' \<noteq> Inr (JStr name)) \<and>
          path_exists w disk \<and> parse_memory memory = Inr mb \<and> path_exists w binary \<and>
          (path_exists w ''vmstart.entitlements'' \<longrightarrow> codesign_installed w) \<and>
          popen_result w = Inr pid \<longrightarrow>
            fst (cmd_start args w) = Inr 0 \<and>
            (\<exists>env. Popen binary env (\<not> arg_foreground args) pid
               \<in> set (new_events w1 (snd (cmd_start args w)))) \<and>
            (\<not> arg_foreground args \<longrightarrow>
               (\<exists>info. map_of (run_dir (snd (cmd_start args w))) (name @ ''.json'') = Some (Parsed info) \<and>
                  py_getitem info ''name'' = Inr (JStr name) \<and>
                  py_getitem info ''pid'' = Inr (JInt pid))))"
proof (rule conjI; rule impI)
  assume "\<exists>v \<in> set vms. py_getitem v ''name'' = Inr (JStr name)"
  then have "\<exists>v \<in> set vms. \<exists>x. py_getitem v ''name'' = Inr x \<and> eq_str name x"
    by (auto simp: eq_str_def)
  moreover from assms(2) have "\<forall>v \<in> set vms. \<exists>x. py_getitem v ''name'' = Inr x"
    by blast
  ultimately obtain vm where f: "find_vm ''name'' (eq_str name) vms = Inr (Some vm)"
    using find_vm_first by blast
  then have "vm \<in> set vms" by (auto dest: find_vm_Some)
  with assms(2) obtain p where p: "py_getitem vm ''pid'' = Inr p" by blast
  from cmd_start_reject [OF assms(1) f [unfolded assms(3)] p]
  have r: "cmd_start args w = (Inr 1, print (ErrAlreadyRunning name p) w1)"
    by (simp add: assms(3))
  show "fst (cmd_start args w) = Inr 1 \<and>
            run_dir (snd (cmd_start args w)) = run_dir w1 \<and>
            trace (snd (cmd_start args w)) = trace w1 \<and>
            (\<exists>p. stdout (snd (cmd_start args w)) = stdout w1 @ [ErrAlreadyRunning name p])"
    by (simp add: r print_def)
next
  assume b: "(\<forall>v \<in> set vms. py_getitem v ''name'' \<noteq> Inr (JStr name)) \<and>
          path_exists w disk \<and> parse_memory memory = Inr mb \<and> path_exists w binary \<and>
          (path_exists w ''vmstart.entitlements'' \<longrightarrow> codesign_installed w) \<and>
          popen_result w = Inr pid"
  with assms(2) have "\<forall>vm \<in> set vms. \<exists>v. py_getitem vm ''name'' = Inr v \<and> \<not> eq_str name v"
    by (fastforce simp: eq_str_def)
  then have n: "find_vm ''name'' (eq_str name) vms = Inr None" by (rule find_vm_none)
  from cmd_start_prepare [OF assms(1) n [unfolded assms(3)]]
  have c: "cmd_start args w = prepare args (load_config w) name w1"
    by (simp add: assms(3))
  from get_running_vms_same_env [OF assms(1)]
  have e: "path_exists w1 = path_exists w" "popen_result w1 = popen_result w"
    "codesign_installed w1 = codesign_installed w"
    by (simp_all add: same_env_def)
  from b have h: "path_exists w1 (or_str (arg_disk args) (default_disk (load_config w)))"
    "parse_memory (or_str (arg_memory args) (default_memory (load_config w))) = Inr mb"
    "path_exists w1 (or_str (arg_binary args) (vmstart_binary (load_config w)))"
    "path_exists w1 ''vmstart.entitlements'' \<longrightarrow> codesign_installed w1"
    "popen_result w1 = Inr pid"
    by (simp_all add: e assms(4,5,6))
  from prepare_success [OF h, of name]
  show "fst (cmd_start args w) = Inr 0 \<and>
            (\<exists>env. Popen binary env (\<not> arg_foreground args) pid
               \<in> set (new_events w1 (snd (cmd_start args w)))) \<and>
            (\<not> arg_foreground args \<longrightarrow>
               (\<exists>info. map_of (run_dir (snd (cmd_start args w))) (name @ ''.json'') = Some (Parsed info) \<and>
                  py_getitem info ''name'' = Inr (JStr name) \<and>
                  py_getitem info ''pid'' = Inr (JInt pid)))"
    by (simp add: c assms(6))
qed

lemma stubborn_installed_enum:
  "get_running_vms (stubborn_world\<lparr>path_exists := installed\<rparr>) =
    (Inr [vm_record ''alpha'' 100],
     stubborn_world\<lparr>path_exists := installed, kills := 1, trace := [Kill 100 SIG0 Alive]\<rparr>)"
  by (simp add: registry_eval stubborn_world_def quiet_world_def vm_record_def)

lemma dead_installed_enum:
  "get_running_vms (dead_world\<lparr>path_exists := installed\<rparr>) =
    (Inr [], dead_world\<lparr>path_exists := installed, run_dir := [], kills := 1,
               trace := [Kill 100 SIG0 Gone]\<rparr>)"
  by (simp add: registry_eval dead_world_def quiet_world_def vm_record_def)

text \<open>C4 on \<^verbatim>\<open>vmctl start --name alpha --disk a.raw\<close>: rejected while process 100 of the
  record \<open>alpha\<close> runs; accepted, with the new pid 4242 recorded, once it has died.\<close>

theorem start_name_uniqueness_witness:
  "fst (get_running_vms (stubborn_world\<lparr>path_exists := installed\<rparr>)) = Inr [vm_record ''alpha'' 100] \<and>
   fst (cmd_start (start_args ''alpha'' ''a.raw'') (stubborn_world\<lparr>path_exists := installed\<rparr>)) = Inr 1 \<and>
   run_dir (snd (cmd_start (start_args ''alpha'' ''a.raw'') (stubborn_world\<lparr>path_exists := installed\<rparr>)))
     = [(''alpha.json'', Parsed (vm_record ''alpha'' 100))] \<and>
   trace (snd (cmd_start (start_args ''alpha'' ''a.raw'') (stubborn_world\<lparr>path_exists := installed\<rparr>)))
     = [Kill 100 SIG0 Alive] \<and>
   fst (get_running_vms (dead_world\<lparr>path_exists := installed\<rparr>)) = Inr [] \<and>
   fst (cmd_start (start_args ''alpha'' ''a.raw'') (dead_world\<lparr>path_exists := installed\<rparr>)) = Inr 0 \<and>
   (\<exists>env. Popen ''./vmstart'' env True 4242
      \<in> set (trace (snd (cmd_start (start_args ''alpha'' ''a.raw'') (dead_world\<lparr>path_exists := installed\<rparr>))))) \<and>
   (\<exists>info. map_of (run_dir (snd (cmd_start (start_args ''alpha'' ''a.raw'')
               (dead_world\<lparr>path_exists := installed\<rparr>)))) ''alpha.json'' = Some (Parsed info) \<and>
      py_getitem info ''pid'' = Inr (JInt 4242))"
proof -
  let ?s = "stubborn_world\<lparr>path_exists := installed\<rparr>"
  let ?d = "dead_world\<lparr>path_exists := installed\<rparr>"
  let ?a = "start_args ''alpha'' ''a.raw''"
  have k: "\<forall>v \<in> set [vm_record ''alpha'' 100]. \<exists>x p. py_getitem v ''name'' = Inr x \<and> py_getitem v ''pid'' = Inr p"
    "\<forall>v \<in> set ([]::json list). \<exists>x p. py_getitem v ''name'' = Inr x \<and> py_getitem v ''pid'' = Inr p"
    by (simp_all add: vm_record_def)
  have cf: "load_config ?s = DEFAULT_CONFIG" "load_config ?d = DEFAULT_CONFIG"
    by (simp_all add: load_config_def stubborn_world_def dead_world_def quiet_world_def)
  have n: "''alpha'' = or_str (arg_name ?a) (''vm-'' @ str (now_unix ?s))"
    "''alpha'' = or_str (arg_name ?a) (''vm-'' @ str (now_unix ?d))"
    "''a.raw'' = or_str (arg_disk ?a) (default_disk (load_config ?s))"
    "''a.raw'' = or_str (arg_disk ?a) (default_disk (load_config ?d))"
    "''2G'' = or_str (arg_memory ?a) (default_memory (load_config ?s))"
    "''2G'' = or_str (arg_memory ?a) (default_memory (load_config ?d))"
    "''./vmstart'' = or_str (arg_binary ?a) (vmstart_binary (load_config ?s))"
    "''./vmstart'' = or_str (arg_binary ?a) (vmstart_binary (load_config ?d))"
    by (simp_all add: start_args_def cf DEFAULT_CONFIG_def)
  have live: "\<exists>v \<in> set [vm_record ''alpha'' 100]. py_getitem v ''name'' = Inr (JStr ''alpha'')"
    by (simp add: vm_record_def)
  have pre: "path_exists ?d ''a.raw''" "path_exists ?d ''./vmstart''"
    "\<not> path_exists ?d ''vmstart.entitlements''" "popen_result ?d = Inr 4242"
    "\<not> arg_foreground ?a"
    by (simp_all add: installed_def dead_world_def quiet_world_def start_args_def)
  from start_name_uniqueness [OF stubborn_installed_enum k(1) n(1,3,5,7), of 0 0] live
  have r: "fst (cmd_start ?a ?s) = Inr 1"
    "run_dir (snd (cmd_start ?a ?s)) = [(''alpha.json'', Parsed (vm_record ''alpha'' 100))]"
    "trace (snd (cmd_start ?a ?s)) = [Kill 100 SIG0 Alive]"
    by (simp_all add: stubborn_world_def quiet_world_def)
  from start_name_uniqueness [OF dead_installed_enum k(2) n(2,4,6,8), of 2147483648 4242]
    pre parse_memory_2G
  have s: "fst (cmd_start ?a ?d) = Inr 0"
    "\<exists>env. Popen ''./vmstart'' env True 4242 \<in> set (new_events
        (dead_world\<lparr>path_exists := installed, run_dir := [], kills := 1,
               trace := [Kill 100 SIG0 Gone]\<rparr>) (snd (cmd_start ?a ?d)))"
    "\<exists>info. map_of (run_dir (snd (cmd_start ?a ?d))) ''alpha.json'' = Some (Parsed info) \<and>
      py_getitem info ''pid'' = Inr (JInt 4242)"
    by auto
  from s(2) have "\<exists>env. Popen ''./vmstart'' env True 4242 \<in> set (trace (snd (cmd_start ?a ?d)))"
    by (auto simp: new_events_def dest: in_set_dropD)
  with r s(1,3) show ?thesis
    by (simp add: stubborn_installed_enum dead_installed_enum)
qed


end
